theory Spec2Isabelle
  imports Main
begin

section \<open>The command descriptor and the descriptor store\<close>

text \<open>
  The interface \<^verbatim>\<open>ParsedCommandDto\<close> of the command-listing module: the leaf name of a
  command, the option lines found in its help text, and the leaf name of its parent
  (\<^verbatim>\<open>null\<close> for a top-level command, here \<open>None\<close>). All three fields are required by
  the interface.
\<close>

record ParsedCommandDto =
  command :: string
  options :: "string list"
  parent :: "string option"

text \<open>
  The object spread \<^verbatim>\<open>{ ...existing, ...updatedDto }\<close>. The first operand is the entry
  found in the store, or the empty object (\<open>None\<close>) when \<^verbatim>\<open>find\<close> returned
  \<^verbatim>\<open>undefined\<close>; every field the second operand carries overrides the first operand's.
\<close>

definition spread :: "ParsedCommandDto option \<Rightarrow> ParsedCommandDto \<Rightarrow> ParsedCommandDto" where
  "spread existing updatedDto =
     (case existing of
        None \<Rightarrow> updatedDto
      | Some e \<Rightarrow> e\<lparr>command := command updatedDto,
                     options := options updatedDto,
                     parent := parent updatedDto\<rparr>)"

text \<open>
  \<^verbatim>\<open>_addOrUpdateDto\<close>: the module-level array \<^verbatim>\<open>_dtos\<close> is passed in and the updated
  array is returned. \<^verbatim>\<open>push\<close> appends at the end.
\<close>

definition findByCommand :: "ParsedCommandDto \<Rightarrow> ParsedCommandDto \<Rightarrow> bool" where
  "findByCommand updatedDto existingDto = (command existingDto = command updatedDto)"

definition addOrUpdateDto :: "ParsedCommandDto \<Rightarrow> ParsedCommandDto list \<Rightarrow> ParsedCommandDto list" where
  "addOrUpdateDto updatedDto dtos =
     (let existing = find (findByCommand updatedDto) dtos;
          dtos' = filter (\<lambda>existing. \<not> findByCommand updatedDto existing) dtos
      in dtos' @ [spread existing updatedDto])"

section \<open>Strings and arrays of the host language\<close>

text \<open>
  \<^verbatim>\<open>String.prototype.startsWith\<close> and \<^verbatim>\<open>String.prototype.includes\<close>: the second argument
  occurs at the start of, respectively somewhere in, the first.
\<close>

fun startsWith :: "string \<Rightarrow> string \<Rightarrow> bool" where
  "startsWith s [] = True"
| "startsWith [] (p # ps) = False"
| "startsWith (c # cs) (p # ps) = (c = p \<and> startsWith cs ps)"

fun str_includes :: "string \<Rightarrow> string \<Rightarrow> bool" where
  "str_includes [] p = (p = [])"
| "str_includes (c # cs) p = (startsWith (c # cs) p \<or> str_includes cs p)"

text \<open>
  \<^verbatim>\<open>String.prototype.split\<close> with a string separator and no limit. The text is scanned
  from the left; at an occurrence of the separator the current piece ends and the scan
  goes on behind the separator. The result always has at least one piece when the
  separator is not empty; the empty separator splits into single characters.
\<close>

function split_scan :: "string \<Rightarrow> string \<Rightarrow> string list" where
  "split_scan sep [] = [[]]"
| "split_scan sep (c # cs) =
     (if sep \<noteq> [] \<and> startsWith (c # cs) sep
      then [] # split_scan sep (drop (length sep) (c # cs))
      else (case split_scan sep cs of
              [] \<Rightarrow> [[c]]
            | piece # pieces \<Rightarrow> (c # piece) # pieces))"
  by pat_completeness auto
termination
  by (relation "measure (\<lambda>(sep, s). length s)") auto

definition str_split :: "string \<Rightarrow> string \<Rightarrow> string list" where
  "str_split s sep = (if sep = [] then map (\<lambda>c. [c]) s else split_scan sep s)"

section \<open>Building a descriptor from a command path\<close>

text \<open>
  \<^verbatim>\<open>_buildDto\<close>. \<^verbatim>\<open>commands.pop()\<close> removes and returns the last element of the array; it
  is only called when the array has more than one element, so the first call returns
  \<open>last commands\<close> and leaves \<open>butlast commands\<close>, which is not empty, for the second.
\<close>

definition buildDto :: "string \<Rightarrow> string list \<Rightarrow> ParsedCommandDto" where
  "buildDto fullCommand opts =
     (let commands = str_split fullCommand '' '';
          hasNestedCommands = length commands > 1;
          command' = (if hasNestedCommands then last commands else fullCommand);
          commands' = (if hasNestedCommands then butlast commands else commands);
          parent' = (if hasNestedCommands then Some (last commands') else None)
      in \<lparr>command = command', options = opts, parent = parent'\<rparr>)"

section \<open>Collaborators outside the module\<close>

text \<open>
  Modelled from the spec: \<^verbatim>\<open>StringUtils.isEmpty\<close> and \<^verbatim>\<open>StringUtils.hasValue\<close> of the
  imported utility package, which is not among the sources. The spec speaks of a null
  command path, an empty token and a non-empty error stream: a value is empty when it is
  \<^verbatim>\<open>undefined\<close>/\<^verbatim>\<open>null\<close> (\<open>None\<close>) or the empty string, and has a value otherwise.
\<close>

definition isEmpty :: "string option \<Rightarrow> bool" where
  "isEmpty v = (case v of None \<Rightarrow> True | Some t \<Rightarrow> t = [])"

definition hasValue :: "string option \<Rightarrow> bool" where
  "hasValue v = (\<not> isEmpty v)"

text \<open>
  Modelled from the spec: \<^verbatim>\<open>CollectionUtils.hasValues\<close> of the same package; the spec's
  cache is used when it is present and non-empty.
\<close>

definition hasValues :: "'a list \<Rightarrow> bool" where
  "hasValues xs = (xs \<noteq> [])"

text \<open>
  What \<^verbatim>\<open>shell.exec\<close> returns for a help invocation, and what reading the cache file
  gives: no file, a read that throws, text that \<^verbatim>\<open>JSON.parse\<close> rejects (both with the
  text of the exception), or the parsed array of descriptors.
\<close>

record ExecResult =
  code :: int
  stderr :: string
  stdout :: string

datatype CacheFile =
    Missing
  | Unreadable string
  | Malformed string
  | Cached "ParsedCommandDto list"

text \<open>
  The constants and functions the module imports from files that are not among the
  sources are parameters of the model: the binary name, the help flag, the alias prefix
  of the command registry, the text of the help option, the cache path, the four colour
  formatters, the shell and the file system.
\<close>

record Env =
  BIN_NAME :: string
  helpFlag :: string
  ALIAS_PREFIX :: string
  OPTIONS_END_STRING :: string
  CACHE_PATH :: string
  green :: "string \<Rightarrow> string"
  yellow :: "string \<Rightarrow> string"
  purple :: "string \<Rightarrow> string"
  red :: "string \<Rightarrow> string"
  shell_exec :: "string \<Rightarrow> ExecResult"
  cache_file :: CacheFile

section \<open>Options, module state and output\<close>

text \<open>
  \<^verbatim>\<open>ListCommandsOptions\<close> with every field present (\<^verbatim>\<open>Required\<close>), and with every field
  optional (\<^verbatim>\<open>Partial\<close>), as \<^verbatim>\<open>setOptions\<close> takes it. \<^verbatim>\<open>indent\<close> counts spaces and is a
  natural number here.
\<close>

record ListCommandsOptions =
  includeHelp :: bool
  indent :: nat
  useColor :: bool
  prefix :: string
  skipCache :: bool

record PartialOptions =
  p_includeHelp :: "bool option"
  p_indent :: "nat option"
  p_useColor :: "bool option"
  p_prefix :: "string option"
  p_skipCache :: "bool option"

definition DEFAULT_INDENT :: nat where
  "DEFAULT_INDENT = 4"

definition DEFAULT_OPTIONS :: ListCommandsOptions where
  "DEFAULT_OPTIONS =
     \<lparr>includeHelp = False, indent = DEFAULT_INDENT, useColor = True,
      prefix = ''- [ ] '', skipCache = False\<rparr>"

definition COMMANDS_START_STRING :: string where
  "COMMANDS_START_STRING = ''Commands:''"

definition COMMANDS_END_STRING :: string where
  "COMMANDS_END_STRING = ''help [command]''"

definition OPTIONS_START_STRING :: string where
  "OPTIONS_START_STRING = ''Options:''"

definition FILTERED_STRINGS :: "Env \<Rightarrow> string list" where
  "FILTERED_STRINGS env = [[CHR 0x09], ALIAS_PREFIX env]"

text \<open>
  What the module writes through \<^verbatim>\<open>Echo\<close>: \<^verbatim>\<open>Echo.message\<close> with its second argument
  (\<open>True\<close> when it is left out), \<^verbatim>\<open>Echo.error\<close> and \<^verbatim>\<open>Echo.success\<close>.
\<close>

datatype Echo =
    EchoMessage string bool
  | EchoError string
  | EchoSuccess string

text \<open>
  The module-level variables \<^verbatim>\<open>_dtos\<close> and \<^verbatim>\<open>_options\<close>, and the sequence of texts
  echoed so far.
\<close>

record State =
  s_dtos :: "ParsedCommandDto list"
  s_options :: ListCommandsOptions
  s_echoed :: "Echo list"

definition echo :: "Echo \<Rightarrow> State \<Rightarrow> State" where
  "echo e s = s\<lparr>s_echoed := s_echoed s @ [e]\<rparr>"

text \<open>
  A call either returns, with a value and the state, or ends the process through
  \<^verbatim>\<open>shell.exit\<close>, with the exit status and the state at that moment.
\<close>

datatype 'a Outcome =
    Exit int State
  | Return 'a State

text \<open>
  \<^verbatim>\<open>setOptions\<close>: \<^verbatim>\<open>{ ...DEFAULT_OPTIONS, ..._options, ...updated }\<close>. The current options
  carry every field, so they override every default; a field of \<^verbatim>\<open>updated\<close> overrides
  when it is present.
\<close>

definition spreadOptions :: "ListCommandsOptions \<Rightarrow> PartialOptions \<Rightarrow> ListCommandsOptions" where
  "spreadOptions base updated =
     \<lparr>includeHelp = (case p_includeHelp updated of None \<Rightarrow> includeHelp base | Some v \<Rightarrow> v),
      indent = (case p_indent updated of None \<Rightarrow> indent base | Some v \<Rightarrow> v),
      useColor = (case p_useColor updated of None \<Rightarrow> useColor base | Some v \<Rightarrow> v),
      prefix = (case p_prefix updated of None \<Rightarrow> prefix base | Some v \<Rightarrow> v),
      skipCache = (case p_skipCache updated of None \<Rightarrow> skipCache base | Some v \<Rightarrow> v)\<rparr>"

definition allOptions :: "ListCommandsOptions \<Rightarrow> PartialOptions" where
  "allOptions opts =
     \<lparr>p_includeHelp = Some (includeHelp opts), p_indent = Some (indent opts),
      p_useColor = Some (useColor opts), p_prefix = Some (prefix opts),
      p_skipCache = Some (skipCache opts)\<rparr>"

definition noOptions :: PartialOptions where
  "noOptions =
     \<lparr>p_includeHelp = None, p_indent = None, p_useColor = None, p_prefix = None,
      p_skipCache = None\<rparr>"

definition setOptions :: "PartialOptions \<Rightarrow> State \<Rightarrow> State" where
  "setOptions updated s =
     s\<lparr>s_options :=
         spreadOptions (spreadOptions DEFAULT_OPTIONS (allOptions (s_options s))) updated\<rparr>"

section \<open>The text range extractor\<close>

text \<open>
  \<^verbatim>\<open>Array.prototype.findIndex\<close> returns \<open>-1\<close> when no element satisfies the test.
  \<^verbatim>\<open>Array.prototype.slice\<close> counts a negative bound from the end and clamps both bounds
  to the array. Reading an index past the end of an array gives \<^verbatim>\<open>undefined\<close>.
\<close>

fun findIndex :: "('a \<Rightarrow> bool) \<Rightarrow> 'a list \<Rightarrow> int" where
  "findIndex P [] = - 1"
| "findIndex P (x # xs) =
     (if P x then 0 else (let i = findIndex P xs in if i < 0 then - 1 else i + 1))"

definition slice_bound :: "nat \<Rightarrow> int \<Rightarrow> nat" where
  "slice_bound len i = (if i < 0 then nat (max (int len + i) 0) else min (nat i) len)"

definition slice :: "'a list \<Rightarrow> int \<Rightarrow> int \<Rightarrow> 'a list" where
  "slice xs start end =
     (let k = slice_bound (length xs) start; final = slice_bound (length xs) end
      in take (final - k) (drop k xs))"

definition at_index :: "'a list \<Rightarrow> nat \<Rightarrow> 'a option" where
  "at_index xs i = (if i < length xs then Some (xs ! i) else None)"

fun defined :: "'a option list \<Rightarrow> 'a list" where
  "defined [] = []"
| "defined (None # vs) = defined vs"
| "defined (Some v # vs) = v # defined vs"

text \<open>
  \<^verbatim>\<open>_parseOutputByRange\<close>. It reads \<^verbatim>\<open>_options.includeHelp\<close>, so the options are an
  argument. After the filter on \<^verbatim>\<open>StringUtils.hasValue\<close> no element is
  \<^verbatim>\<open>undefined\<close>, and \<open>defined\<close> only changes the type.
\<close>

definition parseOutputByRange ::
  "Env \<Rightarrow> ListCommandsOptions \<Rightarrow> string \<Rightarrow> string \<Rightarrow> string \<Rightarrow> string list" where
  "parseOutputByRange env opts output startPattern endPattern =
     (let lines = str_split output [CHR 0x0A];
          startIndex = findIndex (\<lambda>line. str_includes line startPattern) lines;
          endIndex = findIndex (\<lambda>line. str_includes line endPattern) lines;
          lines1 = filter
                     (\<lambda>line. \<not> list_ex (\<lambda>filteredString. str_includes line filteredString)
                                  (FILTERED_STRINGS env))
                     (slice lines (startIndex + 1) (endIndex + 1));
          lines2 = map (\<lambda>line. at_index (str_split line ''  '') 1) lines1;
          lines3 = defined (filter (\<lambda>line. hasValue line) lines2)
      in if \<not> includeHelp opts
         then filter (\<lambda>line. line \<noteq> OPTIONS_END_STRING env \<and> line \<noteq> COMMANDS_END_STRING) lines3
         else lines3)"

definition parseChildren :: "Env \<Rightarrow> ListCommandsOptions \<Rightarrow> string \<Rightarrow> string list" where
  "parseChildren env opts output =
     parseOutputByRange env opts output COMMANDS_START_STRING COMMANDS_END_STRING"

definition parseOptions :: "Env \<Rightarrow> ListCommandsOptions \<Rightarrow> string \<Rightarrow> string list" where
  "parseOptions env opts output =
     parseOutputByRange env opts output OPTIONS_START_STRING (OPTIONS_END_STRING env)"

section \<open>Invoking the help-text provider\<close>

text \<open>The decimal text of an integer, as a template literal renders an exit code.\<close>

function digits :: "nat \<Rightarrow> string" where
  "digits n =
     (if n < 10 then [char_of (48 + n)]
      else digits (n div 10) @ [char_of (48 + n mod 10)])"
  by pat_completeness auto
termination
  by (relation "measure (\<lambda>n. n)") auto

declare digits.simps [simp del]

definition number_text :: "int \<Rightarrow> string" where
  "number_text i = (if i < 0 then ''-'' @ digits (nat (- i)) else digits (nat i))"

text \<open>\<^verbatim>\<open>ListCommands.cmd\<close>: the help invocation of a command path, or of the root.\<close>

definition cmd :: "Env \<Rightarrow> string option \<Rightarrow> string" where
  "cmd env command' =
     (case command' of
        None \<Rightarrow> BIN_NAME env @ '' '' @ helpFlag env
      | Some c \<Rightarrow>
          if isEmpty (Some c) then BIN_NAME env @ '' '' @ helpFlag env
          else BIN_NAME env @ '' '' @ c @ '' '' @ helpFlag env)"

text \<open>
  \<^verbatim>\<open>_execCliHelp\<close>. \<^verbatim>\<open>shell.exit(1)\<close> ends the process, so the \<^verbatim>\<open>return stdout\<close> behind it
  is reached only when the invocation succeeded.
\<close>

definition execCliHelp :: "Env \<Rightarrow> string option \<Rightarrow> State \<Rightarrow> string Outcome" where
  "execCliHelp env command' s =
     (let helpCommand = cmd env command';
          result = shell_exec env helpCommand;
          coloredHelpCommand = purple env helpCommand;
          s1 = echo (EchoMessage (''Running '' @ coloredHelpCommand
                                  @ '' for commands and options...'') True) s
      in if code result \<noteq> 0 \<or> hasValue (Some (stderr result))
         then
           (let coloredError =
                  red env (if hasValue (Some (stderr result))
                           then [CHR 0x0A, CHR 0x0A] @ stderr result
                           else ''exited with code '' @ number_text (code result));
                s2 = echo (EchoError (''Failed to run '' @ coloredHelpCommand @ '': ''
                                      @ coloredError)) s1
            in Exit 1 s2)
         else Return (stdout result) s1)"

section \<open>The recursive discoverer\<close>

text \<open>
  \<^verbatim>\<open>_parseChildrenAndOptions\<close> and the \<^verbatim>\<open>forEach\<close> over the children it found. The
  recursion follows what the provider prints and nothing bounds its depth, so the model
  takes fuel: each nested call uses one unit, and \<open>None\<close> says the fuel did not
  suffice. An exit of the process in a nested call ends the callers as well.
\<close>

fun parseChildrenAndOptions :: "nat \<Rightarrow> Env \<Rightarrow> string option \<Rightarrow> State \<Rightarrow> unit Outcome option"
and forEachChild :: "nat \<Rightarrow> Env \<Rightarrow> string option \<Rightarrow> string list \<Rightarrow> State \<Rightarrow> unit Outcome option"
where
  "parseChildrenAndOptions 0 env command' s = None"
| "parseChildrenAndOptions (Suc n) env command' s =
     (case execCliHelp env command' s of
        Exit status s1 \<Rightarrow> Some (Exit status s1)
      | Return stdout' s1 \<Rightarrow>
          (case forEachChild n env command' (parseChildren env (s_options s1) stdout') s1 of
             None \<Rightarrow> None
           | Some (Exit status s2) \<Rightarrow> Some (Exit status s2)
           | Some (Return u s2) \<Rightarrow>
               (case command' of
                  None \<Rightarrow> Some (Return () s2)
                | Some c \<Rightarrow>
                    if isEmpty (Some c) then Some (Return () s2)
                    else
                      (let opts = parseOptions env (s_options s2) stdout';
                           dto = buildDto c opts
                       in Some (Return () (s2\<lparr>s_dtos := addOrUpdateDto dto (s_dtos s2)\<rparr>))))))"
| "forEachChild n env command' [] s = Some (Return () s)"
| "forEachChild n env command' (child # children) s =
     (case parseChildrenAndOptions n env
             (case command' of
                None \<Rightarrow> Some child
              | Some c \<Rightarrow> if hasValue (Some c) then Some (c @ '' '' @ child) else Some child)
             s of
        None \<Rightarrow> None
      | Some (Exit status s1) \<Rightarrow> Some (Exit status s1)
      | Some (Return u s1) \<Rightarrow> forEachChild n env command' children s1)"

text \<open>\<^verbatim>\<open>ListCommands.parse\<close> starts the discovery at the root.\<close>

definition parse :: "nat \<Rightarrow> Env \<Rightarrow> State \<Rightarrow> unit Outcome option" where
  "parse fuel env s = parseChildrenAndOptions fuel env None s"

section \<open>The cache\<close>

definition resetCache :: "State \<Rightarrow> State" where
  "resetCache s = (setOptions (noOptions\<lparr>p_skipCache := Some True\<rparr>) s)\<lparr>s_dtos := []\<rparr>"

text \<open>
  \<^verbatim>\<open>ListCommands.readCachedFile\<close>: the \<^verbatim>\<open>catch\<close> covers the read and the parse, and the
  message of the exception is part of the error that is echoed.
\<close>

definition readError :: "Env \<Rightarrow> string \<Rightarrow> Echo" where
  "readError env err =
     EchoError (''There was an error attempting to read or deserialize the file at ''
                @ CACHE_PATH env @ '' - '' @ err)"

definition readCachedFile :: "Env \<Rightarrow> State \<Rightarrow> State" where
  "readCachedFile env s =
     (case cache_file env of
        Missing \<Rightarrow>
          echo (EchoMessage ''No cached file found, building from scratch.'' True) (resetCache s)
      | Unreadable err \<Rightarrow>
          echo (readError env err)
            (resetCache
               (echo (EchoMessage ''Found command list cache, attempting to read...'' True) s))
      | Malformed err \<Rightarrow>
          echo (readError env err)
            (resetCache
               (echo (EchoMessage ''Found command list cache, attempting to read...'' True) s))
      | Cached file \<Rightarrow>
          (echo (EchoMessage ''Found command list cache, attempting to read...'' True) s)
            \<lparr>s_dtos := file\<rparr>)"

definition parseOrReadCache :: "nat \<Rightarrow> Env \<Rightarrow> State \<Rightarrow> unit Outcome option" where
  "parseOrReadCache fuel env s =
     (if skipCache (s_options s)
      then parse fuel env (echo (EchoMessage ''Skipping cache if it exists...'' True) s)
      else
        (let s1 = readCachedFile env s
         in if hasValues (s_dtos s1) then Some (Return () s1)
            else parse fuel env (resetCache s1)))"

section \<open>The tree printer\<close>

definition getChildren :: "State \<Rightarrow> ParsedCommandDto \<Rightarrow> ParsedCommandDto list" where
  "getChildren s parentDto =
     filter (\<lambda>child. parent child = Some (command parentDto)) (s_dtos s)"

definition getParentCommandsOrDefault :: "ParsedCommandDto list \<Rightarrow> ParsedCommandDto list" where
  "getParentCommandsOrDefault commands =
     (let parents = filter (\<lambda>c. parent c = None) commands
      in if hasValues parents then parents else commands)"

definition formatted :: "ListCommandsOptions \<Rightarrow> string \<Rightarrow> nat \<Rightarrow> Echo" where
  "formatted opts v ind = EchoMessage (replicate ind CHR '' '' @ prefix opts @ v) False"

definition echoFormatted :: "string \<Rightarrow> nat \<Rightarrow> State \<Rightarrow> State" where
  "echoFormatted v ind s = echo (formatted (s_options s) v ind) s"

definition printOption :: "Env \<Rightarrow> string \<Rightarrow> nat \<Rightarrow> State \<Rightarrow> State" where
  "printOption env option ind s =
     (let optionMessage = (if useColor (s_options s) then yellow env option else option)
      in echoFormatted optionMessage ind s)"

definition printOptions :: "Env \<Rightarrow> ParsedCommandDto \<Rightarrow> nat \<Rightarrow> State \<Rightarrow> State" where
  "printOptions env dto ind s = fold (\<lambda>option. printOption env option ind) (options dto) s"

text \<open>
  \<^verbatim>\<open>ListCommands.print\<close>, \<^verbatim>\<open>ListCommands.printCommand\<close> and the \<^verbatim>\<open>forEach\<close> of
  \<^verbatim>\<open>print\<close>. \<^verbatim>\<open>printCommand\<close> prints the children it finds in \<^verbatim>\<open>_dtos\<close> through \<^verbatim>\<open>print\<close>
  again, and nothing bounds the nesting, so the model takes fuel here as well: one unit
  for each nested \<^verbatim>\<open>print\<close>, and \<open>None\<close> when it did not suffice.
\<close>

fun print :: "nat \<Rightarrow> Env \<Rightarrow> ParsedCommandDto list \<Rightarrow> nat \<Rightarrow> State \<Rightarrow> State option"
and printEach :: "nat \<Rightarrow> Env \<Rightarrow> ParsedCommandDto list \<Rightarrow> nat \<Rightarrow> State \<Rightarrow> State option"
and printCommand :: "nat \<Rightarrow> Env \<Rightarrow> ParsedCommandDto \<Rightarrow> nat \<Rightarrow> State \<Rightarrow> State option"
where
  "print 0 env dtos ind s = None"
| "print (Suc n) env dtos ind s =
     (let commandsSortedByParents = getParentCommandsOrDefault dtos
      in printEach n env commandsSortedByParents ind s)"
| "printEach n env [] ind s = Some s"
| "printEach n env (c # commands) ind s =
     (case printCommand n env c ind s of
        None \<Rightarrow> None
      | Some s1 \<Rightarrow> printEach n env commands ind s1)"
| "printCommand n env dto ind s =
     (let commandMessage =
            (if useColor (s_options s) then green env (command dto) else command dto);
          s1 = echoFormatted commandMessage ind s;
          s2 = printOptions env dto (ind + indent (s_options s1)) s1;
          children = getChildren s2 dto
      in print n env children (ind + indent (s_options s2) * 2) s2)"

section \<open>Descendant command paths\<close>

text \<open>
  A notion the statements about the discoverer use; it is not a function of the module.
  The descendant command paths of a provider are the names the root's help text lists
  as commands, and every such path extended, behind a space, by a name its own help text
  lists as a command.
\<close>

inductive descendant_path :: "Env \<Rightarrow> ListCommandsOptions \<Rightarrow> string \<Rightarrow> bool"
  for env :: Env and opts :: ListCommandsOptions
where
  top_level:
    "child \<in> set (parseChildren env opts (stdout (shell_exec env (cmd env None))))
     \<Longrightarrow> descendant_path env opts child"
| nested:
    "descendant_path env opts path
     \<Longrightarrow> child \<in> set (parseChildren env opts (stdout (shell_exec env (cmd env (Some path)))))
     \<Longrightarrow> descendant_path env opts (path @ '' '' @ child)"

text \<open>
  A state \<open>s'\<close> records only descendants over a state \<open>s\<close> when the options are those
  of \<open>s\<close> and every descriptor of its store is a descriptor of the store of \<open>s\<close> or the
  descriptor built for a descendant command path from the options of that path's help
  text.
\<close>

definition recorded :: "Env \<Rightarrow> State \<Rightarrow> State \<Rightarrow> bool" where
  "recorded env s s' =
     (s_options s' = s_options s \<and>
      (\<forall>d \<in> set (s_dtos s').
          d \<in> set (s_dtos s) \<or>
          (\<exists>path. descendant_path env (s_options s) path \<and>
             d = buildDto path
                   (parseOptions env (s_options s) (stdout (shell_exec env (cmd env (Some path))))))))"

section \<open>Returning and acyclic stores\<close>

text \<open>
  Two notions the statements about the printer use; they are not functions of the module.
  A call of \<^verbatim>\<open>print\<close> returns when some amount of fuel suffices. The parent links of a
  store are acyclic when commands can be ranked so that every descriptor with a parent
  ranks below that parent: then no command is among its own descendants.
\<close>

definition print_returns :: "Env \<Rightarrow> ParsedCommandDto list \<Rightarrow> nat \<Rightarrow> State \<Rightarrow> bool" where
  "print_returns env dtos ind s = (\<exists>fuel. print fuel env dtos ind s \<noteq> None)"

definition acyclic_parents :: "ParsedCommandDto list \<Rightarrow> bool" where
  "acyclic_parents store =
     (\<exists>rank :: string \<Rightarrow> nat.
        \<forall>c \<in> set store. \<forall>q. parent c = Some q \<longrightarrow> rank (command c) < rank q)"

text \<open>
  A store whose parent links form a cycle: \<open>a\<close> is the child of \<open>b\<close> and \<open>b\<close> the child of
  \<open>a\<close>; a third descriptor \<open>c\<close> has a parent that is not in the store.
\<close>

definition cyclic_store :: "ParsedCommandDto list" where
  "cyclic_store =
     [\<lparr>command = ''a'', options = [], parent = Some ''b''\<rparr>,
      \<lparr>command = ''b'', options = [], parent = Some ''a''\<rparr>,
      \<lparr>command = ''c'', options = [], parent = Some ''z''\<rparr>]"

section \<open>A stub provider\<close>

text \<open>
  An environment for running the model on concrete inputs: a stub provider for a tool
  \<open>cli\<close> with the command \<open>deploy\<close> and its two subcommands \<open>aws-s3\<close> and
  \<open>azure-web-app\<close>, formatters that mark the text they colour, and no cache file. Any
  other invocation fails with exit code \<open>1\<close>.
\<close>

definition stub_exec :: "string \<Rightarrow> ExecResult" where
  "stub_exec helpCommand =
     (if helpCommand = ''cli -h'' then
        \<lparr>code = 0, stderr = [],
         stdout = ''Options:\<newline>  -h, --help  display help\<newline>Commands:\<newline>  deploy  Deploy\<newline>  help [command]  display help\<newline>''\<rparr>
      else if helpCommand = ''cli deploy -h'' then
        \<lparr>code = 0, stderr = [],
         stdout = ''Options:\<newline>  -h, --help  display help\<newline>Commands:\<newline>  aws-s3  S3\<newline>  azure-web-app  Azure\<newline>  help [command]  display help\<newline>''\<rparr>
      else if helpCommand = ''cli deploy aws-s3 -h'' then
        \<lparr>code = 0, stderr = [],
         stdout = ''Options:\<newline>  --force  Force\<newline>  -h, --help  display help\<newline>''\<rparr>
      else if helpCommand = ''cli deploy azure-web-app -h'' then
        \<lparr>code = 0, stderr = [],
         stdout = ''Options:\<newline>  --slot  Slot\<newline>  -h, --help  display help\<newline>''\<rparr>
      else \<lparr>code = 1, stderr = [], stdout = []\<rparr>)"

definition stub_env :: Env where
  "stub_env =
     \<lparr>BIN_NAME = ''cli'', helpFlag = ''-h'', ALIAS_PREFIX = ''(alias)'',
      OPTIONS_END_STRING = ''-h, --help'', CACHE_PATH = ''commands.cli.json'',
      green = (\<lambda>t. ''<g>'' @ t), yellow = (\<lambda>t. ''<y>'' @ t),
      purple = (\<lambda>t. ''<p>'' @ t), red = (\<lambda>t. ''<r>'' @ t),
      shell_exec = stub_exec, cache_file = Missing\<rparr>"

definition initial_state :: State where
  "initial_state = \<lparr>s_dtos = [], s_options = DEFAULT_OPTIONS, s_echoed = []\<rparr>"

section \<open>Properties of the descriptor store\<close>

lemma spread_updated: "spread existing updatedDto = updatedDto"
  by (cases existing) (simp_all add: spread_def)

lemma addOrUpdateDto_eq:
  "addOrUpdateDto d dtos = filter (\<lambda>e. command e \<noteq> command d) dtos @ [d]"
  by (simp add: addOrUpdateDto_def findByCommand_def spread_updated Let_def)

text \<open>
  C1. Upserting \<^verbatim>\<open>{command:"x", options:["a"], parent:null}\<close> and then
  \<^verbatim>\<open>{command:"x", options:["b"], parent:"root"}\<close> into any store leaves exactly one
  descriptor for the command \<open>x\<close>, the second one, and leaves the descriptors of the other
  commands as they were; starting from the empty store, the store is that one
  descriptor. The interface requires all three fields, so the later descriptor carries
  every field and each of them wins; the command is the one both descriptors share.
\<close>

theorem upsert_merge_example:
  "(let first = \<lparr>command = ''x'', options = [''a''], parent = None\<rparr>;
        second = \<lparr>command = ''x'', options = [''b''], parent = Some ''root''\<rparr>;
        store = addOrUpdateDto second (addOrUpdateDto first dtos)
    in filter (\<lambda>e. command e = ''x'') store = [second]
       \<and> filter (\<lambda>e. command e \<noteq> ''x'') store = filter (\<lambda>e. command e \<noteq> ''x'') dtos
       \<and> command (last store) = command first)
   \<and> addOrUpdateDto \<lparr>command = ''x'', options = [''b''], parent = Some ''root''\<rparr>
        (addOrUpdateDto \<lparr>command = ''x'', options = [''a''], parent = None\<rparr> [])
      = [\<lparr>command = ''x'', options = [''b''], parent = Some ''root''\<rparr>]"
  by (simp add: addOrUpdateDto_eq Let_def)

text \<open>
  C2. The upsert is idempotent: upserting a descriptor twice in a row gives the store
  that upserting it once gives, for every store and every descriptor.
\<close>

theorem upsert_idempotent:
  "addOrUpdateDto d (addOrUpdateDto d dtos) = addOrUpdateDto d dtos"
  by (simp add: addOrUpdateDto_eq)

text \<open>
  C3. Uniqueness of \<^verbatim>\<open>command\<close> is an invariant of the upsert: when the commands of the
  store are pairwise distinct before an upsert, they are pairwise distinct after it.
\<close>

theorem upsert_keeps_commands_distinct:
  "distinct (map command dtos) \<Longrightarrow> distinct (map command (addOrUpdateDto d dtos))"
  by (auto simp add: addOrUpdateDto_eq distinct_map_filter)

theorem upsert_keeps_commands_distinct_witness:
  "distinct (map command [\<lparr>command = ''x'', options = [''a''], parent = None\<rparr>,
                          \<lparr>command = ''y'', options = [], parent = Some ''x''\<rparr>])
   \<and> distinct (map command
        (addOrUpdateDto \<lparr>command = ''x'', options = [''b''], parent = Some ''root''\<rparr>
           [\<lparr>command = ''x'', options = [''a''], parent = None\<rparr>,
            \<lparr>command = ''y'', options = [], parent = Some ''x''\<rparr>]))"
proof -
  have h: "distinct (map command [\<lparr>command = ''x'', options = [''a''], parent = None\<rparr>,
                          \<lparr>command = ''y'', options = [], parent = Some ''x''\<rparr>])"
    by simp
  from upsert_keeps_commands_distinct [OF h] h show ?thesis by blast
qed

section \<open>Properties of the descriptor builder\<close>

lemma split_scan_nonempty: "split_scan sep s \<noteq> []"
  by (induction sep s rule: split_scan.induct) (auto split: list.splits)

lemma split_scan_single: "split_scan sep s = [t] \<Longrightarrow> t = s"
  by (induction sep s arbitrary: t rule: split_scan.induct)
     (auto split: list.splits if_splits simp: split_scan_nonempty)

lemma str_split_space_nonempty: "str_split s '' '' \<noteq> []"
  by (simp add: str_split_def split_scan_nonempty)

lemma str_split_space_single:
  assumes "length (str_split s '' '') = 1"
  shows "str_split s '' '' = [s]"
proof -
  from assms obtain t where t: "split_scan '' '' s = [t]"
    by (auto simp: str_split_def length_Suc_conv)
  then have "t = s" by (rule split_scan_single)
  with t show ?thesis by (simp add: str_split_def)
qed

lemma last_butlast_nth:
  assumes "length xs > 1"
  shows "last (butlast xs) = xs ! (length xs - 2)"
proof -
  from assms have "butlast xs \<noteq> []" by (cases xs) (auto split: if_splits)
  then have "last (butlast xs) = butlast xs ! (length (butlast xs) - 1)"
    by (rule last_conv_nth)
  also have "\<dots> = xs ! (length xs - 2)"
    using assms by (simp add: nth_butlast numeral_2_eq_2)
  finally show ?thesis .
qed

lemma buildDto_nested:
  assumes "length (str_split fullCommand '' '') > 1"
  shows "buildDto fullCommand opts =
    \<lparr>command = last (str_split fullCommand '' ''), options = opts,
     parent = Some (str_split fullCommand '' '' ! (length (str_split fullCommand '' '') - 2))\<rparr>"
  using assms last_butlast_nth [OF assms] by (simp add: buildDto_def Let_def)

lemma buildDto_single:
  assumes "length (str_split fullCommand '' '') = 1"
  shows "buildDto fullCommand opts =
    \<lparr>command = hd (str_split fullCommand '' ''), options = opts, parent = None\<rparr>"
  using assms str_split_space_single [OF assms] by (simp add: buildDto_def Let_def)

lemma buildDto_options: "options (buildDto fullCommand opts) = opts"
  by (simp add: buildDto_def Let_def)

text \<open>
  C4. For every command path and every list of options, with \<open>tokens\<close> the path split on
  spaces (never empty): the descriptor carries the options; with more than one token its
  command is the last token and its parent the second-to-last; with exactly one token
  its command is that token and its parent is null. In particular
  \<^verbatim>\<open>build("deploy azure-web-app", ["--force"])\<close> is
  \<^verbatim>\<open>{command:"azure-web-app", options:["--force"], parent:"deploy"}\<close> and
  \<^verbatim>\<open>build("list", [])\<close> is \<^verbatim>\<open>{command:"list", options:[], parent:null}\<close>.
\<close>

theorem buildDto_tokens:
  "(let tokens = str_split fullCommand '' ''; dto = buildDto fullCommand opts
    in tokens \<noteq> [] \<and> options dto = opts
       \<and> (length tokens > 1 \<longrightarrow>
            command dto = last tokens \<and> parent dto = Some (tokens ! (length tokens - 2)))
       \<and> (length tokens = 1 \<longrightarrow> command dto = hd tokens \<and> parent dto = None))
   \<and> buildDto ''deploy azure-web-app'' [''--force'']
       = \<lparr>command = ''azure-web-app'', options = [''--force''], parent = Some ''deploy''\<rparr>
   \<and> buildDto ''list'' [] = \<lparr>command = ''list'', options = [], parent = None\<rparr>"
proof (intro conjI)
  show "let tokens = str_split fullCommand '' ''; dto = buildDto fullCommand opts
    in tokens \<noteq> [] \<and> options dto = opts
       \<and> (length tokens > 1 \<longrightarrow>
            command dto = last tokens \<and> parent dto = Some (tokens ! (length tokens - 2)))
       \<and> (length tokens = 1 \<longrightarrow> command dto = hd tokens \<and> parent dto = None)"
    unfolding Let_def
  proof (intro conjI impI)
    show "str_split fullCommand '' '' \<noteq> []" by (rule str_split_space_nonempty)
    show "options (buildDto fullCommand opts) = opts" by (rule buildDto_options)
  next
    assume a: "1 < length (str_split fullCommand '' '')"
    show "command (buildDto fullCommand opts) = last (str_split fullCommand '' '')"
      by (simp only: buildDto_nested [OF a] ParsedCommandDto.simps)
    show "parent (buildDto fullCommand opts) =
            Some (str_split fullCommand '' '' ! (length (str_split fullCommand '' '') - 2))"
      by (simp only: buildDto_nested [OF a] ParsedCommandDto.simps)
  next
    assume a: "length (str_split fullCommand '' '') = 1"
    show "command (buildDto fullCommand opts) = hd (str_split fullCommand '' '')"
      by (simp only: buildDto_single [OF a] ParsedCommandDto.simps)
    show "parent (buildDto fullCommand opts) = None"
      by (simp only: buildDto_single [OF a] ParsedCommandDto.simps)
  qed
  show "buildDto ''deploy azure-web-app'' [''--force'']
       = \<lparr>command = ''azure-web-app'', options = [''--force''], parent = Some ''deploy''\<rparr>"
    by code_simp
  show "buildDto ''list'' [] = \<lparr>command = ''list'', options = [], parent = None\<rparr>"
    by code_simp
qed

theorem buildDto_tokens_witness:
  "length (str_split ''and-cli deploy aws-s3'' '' '') > 1
   \<and> command (buildDto ''and-cli deploy aws-s3'' [''-h'']) = ''aws-s3''
   \<and> parent (buildDto ''and-cli deploy aws-s3'' [''-h'']) = Some ''deploy''
   \<and> length (str_split ''migration'' '' '') = 1
   \<and> command (buildDto ''migration'' []) = ''migration''
   \<and> parent (buildDto ''migration'' []) = None"
proof -
  have t3: "str_split ''and-cli deploy aws-s3'' '' '' = [''and-cli'', ''deploy'', ''aws-s3'']"
    by code_simp
  have t1: "str_split ''migration'' '' '' = [''migration'']"
    by code_simp
  from buildDto_tokens [of "''and-cli deploy aws-s3''" "[''-h'']"]
  have a: "command (buildDto ''and-cli deploy aws-s3'' [''-h'']) = ''aws-s3''
   \<and> parent (buildDto ''and-cli deploy aws-s3'' [''-h'']) = Some ''deploy''"
    unfolding Let_def t3 by simp
  from buildDto_tokens [of "''migration''" "[]"]
  have b: "command (buildDto ''migration'' []) = ''migration''
   \<and> parent (buildDto ''migration'' []) = None"
    unfolding Let_def t1 by simp
  from a b show ?thesis unfolding t3 t1 by simp
qed

section \<open>Properties of the text range extractor\<close>

lemma example_lines:
  "str_split ''Commands:\<newline>  foo  desc\<newline>  bar  desc\<newline>help [command]\<newline>'' [CHR 0x0A]
     = [''Commands:'', ''  foo  desc'', ''  bar  desc'', ''help [command]'', []]"
  by code_simp

lemma example_start:
  "findIndex (\<lambda>line. str_includes line ''Commands:'')
     [''Commands:'', ''  foo  desc'', ''  bar  desc'', ''help [command]'', []] = 0"
  by code_simp

lemma example_end:
  "findIndex (\<lambda>line. str_includes line ''help [command]'')
     [''Commands:'', ''  foo  desc'', ''  bar  desc'', ''help [command]'', []] = 3"
  by code_simp

lemma example_slice:
  "slice [''Commands:'', ''  foo  desc'', ''  bar  desc'', ''help [command]'', []] (0 + 1) (3 + 1)
     = [''  foo  desc'', ''  bar  desc'', ''help [command]'']"
  by code_simp

lemma example_tab:
  "\<not> str_includes ''  foo  desc'' [CHR 0x09]" "\<not> str_includes ''  bar  desc'' [CHR 0x09]"
  "\<not> str_includes ''help [command]'' [CHR 0x09]"
  by code_simp+

lemma example_tokens:
  "at_index (str_split ''  foo  desc'' ''  '') 1 = Some ''foo''"
  "at_index (str_split ''  bar  desc'' ''  '') 1 = Some ''bar''"
  "at_index (str_split ''help [command]'' ''  '') 1 = None"
  by code_simp+

lemma example_values:
  "hasValue (Some ''foo'')" "hasValue (Some ''bar'')" "\<not> hasValue None"
  by (simp_all add: hasValue_def isEmpty_def)

lemma example_not_sentinel: "''foo'' \<noteq> COMMANDS_END_STRING" "''bar'' \<noteq> COMMANDS_END_STRING"
  by (simp_all add: COMMANDS_END_STRING_def)

text \<open>
  C5. With \<^verbatim>\<open>includeHelp\<close> false, the extractor applied to the text
  \<^verbatim>\<open>"Commands:\n  foo  desc\n  bar  desc\nhelp [command]\n"\<close> with the start marker
  \<^verbatim>\<open>"Commands:"\<close> and the end marker \<^verbatim>\<open>"help [command]"\<close> yields exactly \<open>foo\<close>, \<open>bar\<close>
  in that order: the two command lines contribute the piece behind their first two-space
  separator, and the trailing help line is dropped. The alias prefix and the text of the
  help option are constants of files that are not among the sources; the result holds
  for all values of them such that the alias prefix occurs in neither command line and
  the help option's text is neither token.
\<close>

theorem range_extraction_example:
  assumes "\<not> includeHelp opts"
    and "\<not> str_includes ''  foo  desc'' (ALIAS_PREFIX env)"
    and "\<not> str_includes ''  bar  desc'' (ALIAS_PREFIX env)"
    and "OPTIONS_END_STRING env \<noteq> ''foo''"
    and "OPTIONS_END_STRING env \<noteq> ''bar''"
  shows "parseOutputByRange env opts
           ''Commands:\<newline>  foo  desc\<newline>  bar  desc\<newline>help [command]\<newline>''
           ''Commands:'' ''help [command]'' = [''foo'', ''bar'']"
proof -
  define keep where
    "keep = (\<lambda>line. \<not> list_ex (\<lambda>filteredString. str_includes line filteredString)
                         (FILTERED_STRINGS env))"
  have k1: "keep ''  foo  desc''" and k2: "keep ''  bar  desc''"
    unfolding keep_def using assms(2,3) example_tab by (simp_all add: FILTERED_STRINGS_def)
  have mapped: "defined (filter (\<lambda>line. hasValue line)
          (map (\<lambda>line. at_index (str_split line ''  '') 1)
             (filter keep [''  foo  desc'', ''  bar  desc'', ''help [command]'']))) = [''foo'', ''bar'']"
  proof (cases "keep ''help [command]''")
    case True
    with k1 k2 have "filter keep [''  foo  desc'', ''  bar  desc'', ''help [command]'']
        = [''  foo  desc'', ''  bar  desc'', ''help [command]'']"
      by simp
    then show ?thesis
      by (simp add: example_tokens [unfolded One_nat_def] example_values)
  next
    case False
    with k1 k2 have "filter keep [''  foo  desc'', ''  bar  desc'', ''help [command]'']
        = [''  foo  desc'', ''  bar  desc'']"
      by simp
    then show ?thesis
      by (simp add: example_tokens [unfolded One_nat_def] example_values)
  qed
  have final: "filter (\<lambda>line. line \<noteq> OPTIONS_END_STRING env \<and> line \<noteq> COMMANDS_END_STRING) [''foo'', ''bar'']
       = [''foo'', ''bar'']"
    using assms(4,5) example_not_sentinel by simp
  show ?thesis
    unfolding parseOutputByRange_def Let_def example_lines example_start example_end example_slice
      keep_def [symmetric] mapped
    using assms(1) final by simp
qed

theorem range_extraction_example_witness:
  "\<forall>env. parseOutputByRange
           (env\<lparr>ALIAS_PREFIX := ''(alias)'', OPTIONS_END_STRING := ''-h, --help''\<rparr>)
           DEFAULT_OPTIONS
           ''Commands:\<newline>  foo  desc\<newline>  bar  desc\<newline>help [command]\<newline>''
           ''Commands:'' ''help [command]'' = [''foo'', ''bar'']"
proof
  fix env :: Env
  let ?env = "env\<lparr>ALIAS_PREFIX := ''(alias)'', OPTIONS_END_STRING := ''-h, --help''\<rparr>"
  have h1: "\<not> includeHelp DEFAULT_OPTIONS" by (simp add: DEFAULT_OPTIONS_def)
  have a: "\<not> str_includes ''  foo  desc'' ''(alias)''" "\<not> str_includes ''  bar  desc'' ''(alias)''"
    by code_simp+
  have h2: "\<not> str_includes ''  foo  desc'' (ALIAS_PREFIX ?env)"
    and h3: "\<not> str_includes ''  bar  desc'' (ALIAS_PREFIX ?env)"
    using a by simp_all
  have h4: "OPTIONS_END_STRING ?env \<noteq> ''foo''" and h5: "OPTIONS_END_STRING ?env \<noteq> ''bar''"
    by simp_all
  show "parseOutputByRange ?env DEFAULT_OPTIONS
           ''Commands:\<newline>  foo  desc\<newline>  bar  desc\<newline>help [command]\<newline>''
           ''Commands:'' ''help [command]'' = [''foo'', ''bar'']"
    by (rule range_extraction_example [OF h1 h2 h3 h4 h5])
qed

lemma findIndex_none: "(\<And>x. x \<in> set xs \<Longrightarrow> \<not> P x) \<Longrightarrow> findIndex P xs = - 1"
  by (induction xs) (simp_all add: Let_def)

lemma slice_to_zero: "slice xs start 0 = []"
  by (simp add: slice_def slice_bound_def Let_def)

text \<open>
  C10. When no line of the text contains the end marker, the extractor returns the empty
  sequence, whatever the start marker and the rest of the text are: \<^verbatim>\<open>findIndex\<close> gives
  \<open>-1\<close>, so the upper bound of the slice is \<open>0\<close>.
\<close>

theorem no_end_marker_extracts_nothing:
  assumes "\<forall>line \<in> set (str_split output [CHR 0x0A]). \<not> str_includes line endPattern"
  shows "parseOutputByRange env opts output startPattern endPattern = []"
proof -
  have "findIndex (\<lambda>line. str_includes line endPattern) (str_split output [CHR 0x0A]) = - 1"
    using assms by (intro findIndex_none) blast
  then show ?thesis
    by (simp add: parseOutputByRange_def Let_def slice_to_zero)
qed

theorem no_end_marker_extracts_nothing_witness:
  "\<forall>env opts. parseOutputByRange env opts
       (''Commands:'' @ [CHR 0x0A] @ ''  foo  desc'' @ [CHR 0x0A] @ ''  bar  desc'' @ [CHR 0x0A])
       ''Commands:'' ''help [command]'' = []"
proof -
  have lines: "str_split (''Commands:'' @ [CHR 0x0A] @ ''  foo  desc'' @ [CHR 0x0A] @ ''  bar  desc'' @ [CHR 0x0A]) [CHR 0x0A]
      = [''Commands:'', ''  foo  desc'', ''  bar  desc'', []]"
    by code_simp
  have none: "\<forall>line \<in> set (str_split (''Commands:'' @ [CHR 0x0A] @ ''  foo  desc'' @ [CHR 0x0A] @ ''  bar  desc'' @ [CHR 0x0A]) [CHR 0x0A]).
      \<not> str_includes line ''help [command]''"
    unfolding lines by code_simp
  show ?thesis
    using no_end_marker_extracts_nothing [OF none] by blast
qed

section \<open>Properties of the help invocation\<close>

lemma startsWith_append: "startsWith (p @ ys) p"
  by (induction p) simp_all

lemma str_includes_startsWith: "startsWith s p \<Longrightarrow> str_includes s p"
  by (cases s; cases p) simp_all

lemma str_includes_prefix: "str_includes (p @ ys) p"
  by (rule str_includes_startsWith) (rule startsWith_append)

lemma str_includes_append: "str_includes (xs @ p @ ys) p"
  by (induction xs) (simp_all add: str_includes_prefix)

lemma hasValue_Some: "hasValue (Some t) = (t \<noteq> [])"
  by (simp add: hasValue_def isEmpty_def)

lemma execCliHelp_failure:
  assumes "code (shell_exec env (cmd env c)) \<noteq> 0 \<or> stderr (shell_exec env (cmd env c)) \<noteq> []"
  shows "execCliHelp env c s =
     Exit 1 (s\<lparr>s_echoed := s_echoed s @
        [EchoMessage (''Running '' @ purple env (cmd env c) @ '' for commands and options...'') True,
         EchoError (''Failed to run '' @ purple env (cmd env c) @ '': '' @
            red env (if stderr (shell_exec env (cmd env c)) \<noteq> []
                     then ''\<newline>\<newline>'' @ stderr (shell_exec env (cmd env c))
                     else ''exited with code '' @ number_text (code (shell_exec env (cmd env c)))))]\<rparr>)"
  using assms by (auto simp add: execCliHelp_def Let_def hasValue_Some echo_def)

text \<open>
  C7. A failure of the provider is fatal and is not retried. Whenever the result of a help
  invocation has a non-zero exit code or a non-empty error stream, \<^verbatim>\<open>_execCliHelp\<close> does
  not return the help text: it echoes one error, made of the coloured help command and
  of the coloured error stream (or, when that is empty, of the exit code), and ends the
  process with status \<open>1\<close>. The discoverer called for that path ends in the same way,
  with the store untouched and without another invocation.
\<close>

theorem provider_failure_is_fatal:
  assumes "code (shell_exec env (cmd env c)) \<noteq> 0 \<or> stderr (shell_exec env (cmd env c)) \<noteq> []"
  shows "let helpCommand = cmd env c;
             result = shell_exec env helpCommand;
             detail = (if stderr result \<noteq> [] then ''\<newline>\<newline>'' @ stderr result
                       else ''exited with code '' @ number_text (code result));
             report = ''Failed to run '' @ purple env helpCommand @ '': '' @ red env detail;
             s' = s\<lparr>s_echoed := s_echoed s @
                    [EchoMessage (''Running '' @ purple env helpCommand
                                  @ '' for commands and options...'') True,
                     EchoError report]\<rparr>
         in execCliHelp env c s = Exit 1 s'
            \<and> parseChildrenAndOptions (Suc fuel) env c s = Some (Exit 1 s')
            \<and> str_includes report (purple env helpCommand)
            \<and> str_includes report (red env detail)"
proof -
  note f = execCliHelp_failure [OF assms, of s]
  have inc1: "\<And>a b d. str_includes (a @ b @ d) b" by (rule str_includes_append)
  have inc2: "\<And>a b d. str_includes (a @ b @ d @ e) e" for e :: string
    using str_includes_append [of "a @ b @ d" e "[]" for a b d] by simp
  show ?thesis
    unfolding Let_def
    by (intro conjI) (simp_all only: f parseChildrenAndOptions.simps Outcome.case inc1 inc2)
qed

theorem provider_failure_is_fatal_witness:
  "\<forall>env s. \<exists>s'. execCliHelp
             (env\<lparr>shell_exec := (\<lambda>c. \<lparr>code = 127, stderr = [], stdout = ''Commands:''\<rparr>)\<rparr>)
             (Some ''deploy'') s = Exit 1 s'
        \<and> parseChildrenAndOptions (Suc 0)
             (env\<lparr>shell_exec := (\<lambda>c. \<lparr>code = 127, stderr = [], stdout = ''Commands:''\<rparr>)\<rparr>)
             (Some ''deploy'') s = Some (Exit 1 s')
        \<and> s_dtos s' = s_dtos s
        \<and> last (s_echoed s') =
            EchoError (''Failed to run '' @ purple env (BIN_NAME env @ '' deploy '' @ helpFlag env)
                       @ '': '' @ red env ''exited with code 127'')"
proof (intro allI)
  fix env :: Env and s :: State
  let ?env = "env\<lparr>shell_exec := (\<lambda>c. \<lparr>code = 127, stderr = [], stdout = ''Commands:''\<rparr>)\<rparr>"
  have h: "code (shell_exec ?env (cmd ?env (Some ''deploy''))) \<noteq> 0
           \<or> stderr (shell_exec ?env (cmd ?env (Some ''deploy''))) \<noteq> []"
    by simp
  have n: "number_text 127 = ''127''" by code_simp
  have c: "cmd ?env (Some ''deploy'') = BIN_NAME env @ '' deploy '' @ helpFlag env"
    by (simp add: cmd_def isEmpty_def)
  from provider_failure_is_fatal [OF h, of s 0]
  show "\<exists>s'. execCliHelp ?env (Some ''deploy'') s = Exit 1 s'
        \<and> parseChildrenAndOptions (Suc 0) ?env (Some ''deploy'') s = Some (Exit 1 s')
        \<and> s_dtos s' = s_dtos s
        \<and> last (s_echoed s') =
            EchoError (''Failed to run '' @ purple env (BIN_NAME env @ '' deploy '' @ helpFlag env)
                       @ '': '' @ red env ''exited with code 127'')"
    unfolding Let_def c by (simp add: n)
qed

section \<open>Properties of the cache\<close>

lemma spreadOptions_all: "spreadOptions base (allOptions opts) = opts"
  by (simp add: spreadOptions_def allOptions_def)

lemma setOptions_skipCache:
  "setOptions (noOptions\<lparr>p_skipCache := Some True\<rparr>) s
     = s\<lparr>s_options := (s_options s)\<lparr>skipCache := True\<rparr>\<rparr>"
  by (simp add: setOptions_def spreadOptions_all) (simp add: spreadOptions_def noOptions_def)

lemma resetCache_eq:
  "resetCache s = s\<lparr>s_options := (s_options s)\<lparr>skipCache := True\<rparr>, s_dtos := []\<rparr>"
  by (simp add: resetCache_def setOptions_skipCache)

lemma readCachedFile_failure:
  assumes "\<forall>file. cache_file env \<noteq> Cached file"
  shows "readCachedFile env s =
     \<lparr>s_dtos = [], s_options = (s_options s)\<lparr>skipCache := True\<rparr>,
      s_echoed = s_echoed s @
        (case cache_file env of
           Missing \<Rightarrow> [EchoMessage ''No cached file found, building from scratch.'' True]
         | Unreadable err \<Rightarrow>
             [EchoMessage ''Found command list cache, attempting to read...'' True,
              readError env err]
         | Malformed err \<Rightarrow>
             [EchoMessage ''Found command list cache, attempting to read...'' True,
              readError env err]
         | Cached file \<Rightarrow> [])\<rparr>"
  using assms
  by (cases "cache_file env") (simp_all add: readCachedFile_def resetCache_eq echo_def)

text \<open>
  C8. A failure to read the cache is recovered locally. Whenever the cache file is
  missing, unreadable or not deserializable, \<^verbatim>\<open>readCachedFile\<close> returns with the store
  cleared, \<^verbatim>\<open>skipCache\<close> set and the other options kept, and with a report echoed (a
  message for a missing file, an error with the text of the exception otherwise); and
  when the cache was not skipped from the start, \<^verbatim>\<open>parseOrReadCache\<close> goes on with the
  full discovery from that state.
\<close>

theorem cache_read_failure_recovers:
  assumes "\<forall>file. cache_file env \<noteq> Cached file"
  shows "let s1 = readCachedFile env s
         in s_dtos s1 = []
            \<and> s_options s1 = (s_options s)\<lparr>skipCache := True\<rparr>
            \<and> s_echoed s1 = s_echoed s @
                 (case cache_file env of
                    Missing \<Rightarrow> [EchoMessage ''No cached file found, building from scratch.'' True]
                  | Unreadable err \<Rightarrow>
                      [EchoMessage ''Found command list cache, attempting to read...'' True,
                       readError env err]
                  | Malformed err \<Rightarrow>
                      [EchoMessage ''Found command list cache, attempting to read...'' True,
                       readError env err]
                  | Cached file \<Rightarrow> [])
            \<and> (\<not> skipCache (s_options s) \<longrightarrow>
                  parseOrReadCache fuel env s = parse fuel env s1)"
proof -
  note r = readCachedFile_failure [OF assms, of s]
  have reset: "resetCache (readCachedFile env s) = readCachedFile env s"
    unfolding r by (simp add: resetCache_eq)
  have "\<not> skipCache (s_options s) \<Longrightarrow>
          parseOrReadCache fuel env s = parse fuel env (readCachedFile env s)"
    unfolding parseOrReadCache_def Let_def reset
    by (simp add: hasValues_def r)
  then show ?thesis
    unfolding Let_def by (simp add: r)
qed

theorem cache_read_failure_recovers_witness:
  "parseOrReadCache 4 (stub_env\<lparr>cache_file := Malformed ''SyntaxError''\<rparr>) initial_state
     = parse 4 (stub_env\<lparr>cache_file := Malformed ''SyntaxError''\<rparr>)
         \<lparr>s_dtos = [], s_options = DEFAULT_OPTIONS\<lparr>skipCache := True\<rparr>,
          s_echoed = [EchoMessage ''Found command list cache, attempting to read...'' True,
                      EchoError ''There was an error attempting to read or deserialize the file at commands.cli.json - SyntaxError'']\<rparr>
   \<and> parseOrReadCache 4 stub_env initial_state
     = parse 4 stub_env
         \<lparr>s_dtos = [], s_options = DEFAULT_OPTIONS\<lparr>skipCache := True\<rparr>,
          s_echoed = [EchoMessage ''No cached file found, building from scratch.'' True]\<rparr>"
proof -
  let ?env = "stub_env\<lparr>cache_file := Malformed ''SyntaxError''\<rparr>"
  have h1: "\<forall>file. cache_file ?env \<noteq> Cached file" by simp
  have h2: "\<forall>file. cache_file stub_env \<noteq> Cached file" by (simp add: stub_env_def)
  have n: "\<not> skipCache (s_options initial_state)"
    by (simp add: initial_state_def DEFAULT_OPTIONS_def)
  have e1: "readCachedFile ?env initial_state =
         \<lparr>s_dtos = [], s_options = DEFAULT_OPTIONS\<lparr>skipCache := True\<rparr>,
          s_echoed = [EchoMessage ''Found command list cache, attempting to read...'' True,
                      EchoError ''There was an error attempting to read or deserialize the file at commands.cli.json - SyntaxError'']\<rparr>"
    by code_simp
  have e2: "readCachedFile stub_env initial_state =
         \<lparr>s_dtos = [], s_options = DEFAULT_OPTIONS\<lparr>skipCache := True\<rparr>,
          s_echoed = [EchoMessage ''No cached file found, building from scratch.'' True]\<rparr>"
    by code_simp
  from cache_read_failure_recovers [OF h1, of initial_state 4] n
  have a: "parseOrReadCache 4 ?env initial_state = parse 4 ?env (readCachedFile ?env initial_state)"
    unfolding Let_def by blast
  from cache_read_failure_recovers [OF h2, of initial_state 4] n
  have b: "parseOrReadCache 4 stub_env initial_state
             = parse 4 stub_env (readCachedFile stub_env initial_state)"
    unfolding Let_def by blast
  from a b show ?thesis unfolding e1 e2 by simp
qed

section \<open>Properties of the discoverer\<close>

lemma defined_hasValue: "t \<in> set (defined (filter (\<lambda>line. hasValue line) vs)) \<Longrightarrow> t \<noteq> []"
  by (induction vs rule: defined.induct) (auto simp: hasValue_def isEmpty_def split: if_splits)

lemma parseOutputByRange_hasValue:
  "t \<in> set (parseOutputByRange env opts output startPattern endPattern) \<Longrightarrow> t \<noteq> []"
  by (auto simp: parseOutputByRange_def Let_def split: if_splits dest: defined_hasValue)

lemma parseChildrenAndOptions_root:
  "parseChildrenAndOptions (Suc n) env None s =
     (case execCliHelp env None s of
        Exit status s1 \<Rightarrow> Some (Exit status s1)
      | Return out s1 \<Rightarrow> forEachChild n env None (parseChildren env (s_options s1) out) s1)"
  by (auto split: Outcome.splits option.splits)

lemma execCliHelp_dtos: "execCliHelp env c s = Return out s1 \<Longrightarrow> s_dtos s1 = s_dtos s \<and> s_options s1 = s_options s"
  by (auto simp: execCliHelp_def Let_def echo_def split: if_splits)

lemma descendant_path_nonempty: "descendant_path env opts path \<Longrightarrow> path \<noteq> []"
proof (induction rule: descendant_path.induct)
  case (top_level child)
  then show ?case by (auto simp: parseChildren_def dest: parseOutputByRange_hasValue)
next
  case (nested path child)
  then show ?case by simp
qed

lemma execCliHelp_Return:
  assumes "execCliHelp env c s = Return out s1"
  shows "out = stdout (shell_exec env (cmd env c))" "s_dtos s1 = s_dtos s" "s_options s1 = s_options s"
  using assms by (auto simp: execCliHelp_def Let_def echo_def split: if_splits)

lemma set_addOrUpdateDto: "set (addOrUpdateDto d dtos) \<subseteq> insert d (set dtos)"
  by (auto simp: addOrUpdateDto_eq)

lemma recorded_trans: "recorded env s s1 \<Longrightarrow> recorded env s1 s2 \<Longrightarrow> recorded env s s2"
  unfolding recorded_def by (simp, blast)

lemma discovery_records_descendants:
  "(c = None \<or> (\<exists>path. c = Some path \<and> descendant_path env (s_options s) path))
   \<Longrightarrow> parseChildrenAndOptions n env c s = Some (Return () s')
   \<Longrightarrow> recorded env s s'"
proof (induction n arbitrary: c s s')
  case 0
  then show ?case by simp
next
  case (Suc n)
  have loop: "set children \<subseteq> set (parseChildren env (s_options t) (stdout (shell_exec env (cmd env c))))
      \<Longrightarrow> (c = None \<or> (\<exists>path. c = Some path \<and> descendant_path env (s_options t) path))
      \<Longrightarrow> forEachChild n env c children t = Some (Return () t')
      \<Longrightarrow> recorded env t t'" for children c t t'
  proof (induction children arbitrary: t)
    case Nil
    then show ?case by (simp add: recorded_def)
  next
    case (Cons child children)
    define path where
      "path = (case c of None \<Rightarrow> child | Some p \<Rightarrow> if hasValue (Some p) then p @ '' '' @ child else child)"
    from Cons.prems(1) have ch:
      "child \<in> set (parseChildren env (s_options t) (stdout (shell_exec env (cmd env c))))"
      by simp
    have dp: "descendant_path env (s_options t) path"
    proof (cases c)
      case None
      with ch show ?thesis unfolding path_def by (simp add: descendant_path.top_level)
    next
      case (Some p)
      with Cons.prems(2) have p: "descendant_path env (s_options t) p" by simp
      then have "p \<noteq> []" by (rule descendant_path_nonempty)
      then have eq: "path = p @ '' '' @ child"
        unfolding path_def Some by (simp add: hasValue_def isEmpty_def)
      from ch have "child \<in> set (parseChildren env (s_options t)
                            (stdout (shell_exec env (cmd env (Some p)))))"
        unfolding Some .
      with p show ?thesis unfolding eq by (rule descendant_path.nested)
    qed
    have arg: "(case c of None \<Rightarrow> Some child
                | Some p \<Rightarrow> if hasValue (Some p) then Some (p @ '' '' @ child) else Some child)
               = Some path"
      unfolding path_def by (simp split: option.splits)
    from Cons.prems(3) obtain t1 where
      one: "parseChildrenAndOptions n env (Some path) t = Some (Return () t1)"
      and rest: "forEachChild n env c children t1 = Some (Return () t')"
      unfolding forEachChild.simps arg by (auto split: option.splits Outcome.splits)
    from Suc.IH [OF _ one] dp have r1: "recorded env t t1" by blast
    then have o: "s_options t1 = s_options t" by (simp add: recorded_def)
    from Cons.prems(1) have "set children \<subseteq>
        set (parseChildren env (s_options t1) (stdout (shell_exec env (cmd env c))))"
      unfolding o by simp
    moreover from Cons.prems(2)
    have "c = None \<or> (\<exists>path. c = Some path \<and> descendant_path env (s_options t1) path)"
      unfolding o .
    ultimately have "recorded env t1 t'" using rest by (rule Cons.IH)
    with r1 show ?case by (rule recorded_trans)
  qed
  from Suc.prems(2) obtain out s1 s2 where
    e: "execCliHelp env c s = Return out s1"
    and l: "forEachChild n env c (parseChildren env (s_options s1) out) s1 = Some (Return () s2)"
    and f: "s' = (case c of None \<Rightarrow> s2
                  | Some p \<Rightarrow> if isEmpty (Some p) then s2
                      else s2\<lparr>s_dtos := addOrUpdateDto
                              (buildDto p (parseOptions env (s_options s2) out)) (s_dtos s2)\<rparr>)"
    by (auto split: Outcome.splits option.splits if_splits simp: Let_def)
  note r = execCliHelp_Return [OF e]
  have "recorded env s1 s2"
  proof (rule loop [OF _ _ l])
    show "set (parseChildren env (s_options s1) out)
            \<subseteq> set (parseChildren env (s_options s1) (stdout (shell_exec env (cmd env c))))"
      unfolding r(1) by simp
    from Suc.prems(1)
    show "c = None \<or> (\<exists>path. c = Some path \<and> descendant_path env (s_options s1) path)"
      unfolding r(3) .
  qed
  then have s2: "s_options s2 = s_options s"
    and d2: "\<forall>d \<in> set (s_dtos s2). d \<in> set (s_dtos s) \<or>
          (\<exists>path. descendant_path env (s_options s) path \<and>
             d = buildDto path
                   (parseOptions env (s_options s) (stdout (shell_exec env (cmd env (Some path))))))"
    unfolding recorded_def r(2) r(3) by simp_all
  show ?case
  proof (cases c)
    case None
    with f have "s' = s2" by simp
    with s2 d2 show ?thesis by (simp add: recorded_def)
  next
    case (Some p)
    with Suc.prems(1) have p: "descendant_path env (s_options s) p" by simp
    then have "p \<noteq> []" by (rule descendant_path_nonempty)
    with f Some have s': "s' = s2\<lparr>s_dtos := addOrUpdateDto
                              (buildDto p (parseOptions env (s_options s2) out)) (s_dtos s2)\<rparr>"
      by (simp add: isEmpty_def)
    have "\<forall>d \<in> set (s_dtos s'). d \<in> set (s_dtos s) \<or>
          (\<exists>path. descendant_path env (s_options s) path \<and>
             d = buildDto path
                   (parseOptions env (s_options s) (stdout (shell_exec env (cmd env (Some path))))))"
    proof
      fix d
      assume "d \<in> set (s_dtos s')"
      with s' set_addOrUpdateDto [of "buildDto p (parseOptions env (s_options s2) out)" "s_dtos s2"]
      have "d = buildDto p (parseOptions env (s_options s2) out) \<or> d \<in> set (s_dtos s2)"
        by auto
      then show "d \<in> set (s_dtos s) \<or>
          (\<exists>path. descendant_path env (s_options s) path \<and>
             d = buildDto path
                   (parseOptions env (s_options s) (stdout (shell_exec env (cmd env (Some path))))))"
      proof
        assume "d = buildDto p (parseOptions env (s_options s2) out)"
        with p Some show ?thesis unfolding s2 r(1) by blast
      next
        assume "d \<in> set (s_dtos s2)"
        with d2 show ?thesis by blast
      qed
    qed
    with s2 s' show ?thesis by (simp add: recorded_def)
  qed
qed

text \<open>
  C9. The root is never recorded. For every provider, the discovery called with the null
  command path ends, when the help invocation succeeded, exactly as the loop over the
  children it found ends: nothing is upserted behind the loop. The loop calls the
  discovery with each child's name as the path. So a root without children leaves the
  store as it was, whereas a path that is not empty and has no children has its own
  descriptor upserted. And whenever the discovery from the root returns, every
  descriptor of the store is one the store held before or the descriptor of a
  descendant command path; such a path is never empty.
\<close>

theorem root_is_not_recorded:
  "parseChildrenAndOptions (Suc n) env None s =
     (case execCliHelp env None s of
        Exit status s1 \<Rightarrow> Some (Exit status s1)
      | Return out s1 \<Rightarrow> forEachChild n env None (parseChildren env (s_options s1) out) s1)
   \<and> forEachChild n env None (child # children) s =
     (case parseChildrenAndOptions n env (Some child) s of
        None \<Rightarrow> None
      | Some (Exit status s1) \<Rightarrow> Some (Exit status s1)
      | Some (Return u s1) \<Rightarrow> forEachChild n env None children s1)
   \<and> (\<forall>out s1. execCliHelp env None s = Return out s1
          \<longrightarrow> parseChildren env (s_options s1) out = []
          \<longrightarrow> parseChildrenAndOptions (Suc n) env None s = Some (Return () s1)
              \<and> s_dtos s1 = s_dtos s)
   \<and> (\<forall>c out s1. c \<noteq> [] \<longrightarrow> execCliHelp env (Some c) s = Return out s1
          \<longrightarrow> parseChildren env (s_options s1) out = []
          \<longrightarrow> parseChildrenAndOptions (Suc n) env (Some c) s =
                Some (Return ()
                  (s1\<lparr>s_dtos := addOrUpdateDto (buildDto c (parseOptions env (s_options s1) out))
                                   (s_dtos s)\<rparr>)))
   \<and> (\<forall>fuel s'. parseChildrenAndOptions fuel env None s = Some (Return () s')
          \<longrightarrow> recorded env s s')
   \<and> (\<forall>opts path. descendant_path env opts path \<longrightarrow> path \<noteq> [])"
proof (intro conjI allI impI)
  show "parseChildrenAndOptions (Suc n) env None s =
     (case execCliHelp env None s of
        Exit status s1 \<Rightarrow> Some (Exit status s1)
      | Return out s1 \<Rightarrow> forEachChild n env None (parseChildren env (s_options s1) out) s1)"
    by (rule parseChildrenAndOptions_root)
  show "forEachChild n env None (child # children) s =
     (case parseChildrenAndOptions n env (Some child) s of
        None \<Rightarrow> None
      | Some (Exit status s1) \<Rightarrow> Some (Exit status s1)
      | Some (Return u s1) \<Rightarrow> forEachChild n env None children s1)"
    by simp
next
  fix out s1
  assume e: "execCliHelp env None s = Return out s1"
    and c: "parseChildren env (s_options s1) out = []"
  show "parseChildrenAndOptions (Suc n) env None s = Some (Return () s1)"
    by (simp add: parseChildrenAndOptions_root e c)
  show "s_dtos s1 = s_dtos s"
    using execCliHelp_dtos [OF e] by simp
next
  fix c out s1
  assume ne: "c \<noteq> []" and e: "execCliHelp env (Some c) s = Return out s1"
    and ch: "parseChildren env (s_options s1) out = []"
  show "parseChildrenAndOptions (Suc n) env (Some c) s =
                Some (Return ()
                  (s1\<lparr>s_dtos := addOrUpdateDto (buildDto c (parseOptions env (s_options s1) out))
                                   (s_dtos s)\<rparr>))"
  proof -
    have loop: "forEachChild n env (Some c) (parseChildren env (s_options s1) out) s1
                  = Some (Return () s1)"
      by (simp add: ch)
    have d: "s_dtos s1 = s_dtos s"
      using execCliHelp_dtos [OF e] by simp
    show ?thesis
      using ne by (simp add: e loop d isEmpty_def Let_def)
  qed
next
  fix fuel s'
  assume "parseChildrenAndOptions fuel env None s = Some (Return () s')"
  with discovery_records_descendants [of None env s fuel s']
  show "recorded env s s'" by simp
next
  fix opts path
  assume "descendant_path env opts path"
  then show "path \<noteq> []" by (rule descendant_path_nonempty)
qed

theorem root_is_not_recorded_witness:
  "(case parseChildrenAndOptions 4 stub_env None initial_state of
      Some (Return u s) \<Rightarrow>
        s_dtos s = [\<lparr>command = ''aws-s3'', options = [''--force''], parent = Some ''deploy''\<rparr>,
                    \<lparr>command = ''azure-web-app'', options = [''--slot''], parent = Some ''deploy''\<rparr>,
                    \<lparr>command = ''deploy'', options = [], parent = None\<rparr>]
    | _ \<Rightarrow> False)
   \<and> (case parseChildrenAndOptions 1 (stub_env\<lparr>BIN_NAME := ''cli deploy aws-s3''\<rparr>) None initial_state of
      Some (Return u s) \<Rightarrow> s_dtos s = []
    | _ \<Rightarrow> False)
   \<and> (case parseChildrenAndOptions 1 stub_env (Some ''deploy aws-s3'') initial_state of
      Some (Return u s) \<Rightarrow>
        s_dtos s = [\<lparr>command = ''aws-s3'', options = [''--force''], parent = Some ''deploy''\<rparr>]
    | _ \<Rightarrow> False)
   \<and> recorded stub_env initial_state
        (initial_state
           \<lparr>s_dtos := [\<lparr>command = ''aws-s3'', options = [''--force''], parent = Some ''deploy''\<rparr>,
                       \<lparr>command = ''azure-web-app'', options = [''--slot''], parent = Some ''deploy''\<rparr>,
                       \<lparr>command = ''deploy'', options = [], parent = None\<rparr>],
            s_echoed := [EchoMessage ''Running <p>cli -h for commands and options...'' True,
                         EchoMessage ''Running <p>cli deploy -h for commands and options...'' True,
                         EchoMessage ''Running <p>cli deploy aws-s3 -h for commands and options...'' True,
                         EchoMessage ''Running <p>cli deploy azure-web-app -h for commands and options...'' True]\<rparr>)"
proof (intro conjI)
  have run: "parseChildrenAndOptions 4 stub_env None initial_state = Some (Return ()
        (initial_state
           \<lparr>s_dtos := [\<lparr>command = ''aws-s3'', options = [''--force''], parent = Some ''deploy''\<rparr>,
                       \<lparr>command = ''azure-web-app'', options = [''--slot''], parent = Some ''deploy''\<rparr>,
                       \<lparr>command = ''deploy'', options = [], parent = None\<rparr>],
            s_echoed := [EchoMessage ''Running <p>cli -h for commands and options...'' True,
                         EchoMessage ''Running <p>cli deploy -h for commands and options...'' True,
                         EchoMessage ''Running <p>cli deploy aws-s3 -h for commands and options...'' True,
                         EchoMessage ''Running <p>cli deploy azure-web-app -h for commands and options...'' True]\<rparr>))"
    by code_simp
  from root_is_not_recorded [of 0 stub_env initial_state, THEN conjunct2, THEN conjunct2,
      THEN conjunct2, THEN conjunct2, THEN conjunct1, THEN spec, THEN spec, THEN mp, OF run]
  show "recorded stub_env initial_state
        (initial_state
           \<lparr>s_dtos := [\<lparr>command = ''aws-s3'', options = [''--force''], parent = Some ''deploy''\<rparr>,
                       \<lparr>command = ''azure-web-app'', options = [''--slot''], parent = Some ''deploy''\<rparr>,
                       \<lparr>command = ''deploy'', options = [], parent = None\<rparr>],
            s_echoed := [EchoMessage ''Running <p>cli -h for commands and options...'' True,
                         EchoMessage ''Running <p>cli deploy -h for commands and options...'' True,
                         EchoMessage ''Running <p>cli deploy aws-s3 -h for commands and options...'' True,
                         EchoMessage ''Running <p>cli deploy azure-web-app -h for commands and options...'' True]\<rparr>)" .
next
  have "case (case execCliHelp stub_env None initial_state of
        Exit status s1 \<Rightarrow> Some (Exit status s1)
      | Return out s1 \<Rightarrow> forEachChild 3 stub_env None (parseChildren stub_env (s_options s1) out) s1) of
      Some (Return u s) \<Rightarrow>
        s_dtos s = [\<lparr>command = ''aws-s3'', options = [''--force''], parent = Some ''deploy''\<rparr>,
                    \<lparr>command = ''azure-web-app'', options = [''--slot''], parent = Some ''deploy''\<rparr>,
                    \<lparr>command = ''deploy'', options = [], parent = None\<rparr>]
    | _ \<Rightarrow> False"
    by code_simp
  then show "case parseChildrenAndOptions 4 stub_env None initial_state of
      Some (Return u s) \<Rightarrow>
        s_dtos s = [\<lparr>command = ''aws-s3'', options = [''--force''], parent = Some ''deploy''\<rparr>,
                    \<lparr>command = ''azure-web-app'', options = [''--slot''], parent = Some ''deploy''\<rparr>,
                    \<lparr>command = ''deploy'', options = [], parent = None\<rparr>]
    | _ \<Rightarrow> False"
    using root_is_not_recorded [of 3 stub_env initial_state, THEN conjunct1]
    by (simp only: numeral_eq_Suc pred_numeral_simps Suc_eq_plus1 BitM.simps)
next
  let ?env = "stub_env\<lparr>BIN_NAME := ''cli deploy aws-s3''\<rparr>"
  let ?out = "''Options:\<newline>  --force  Force\<newline>  -h, --help  display help\<newline>''"
  let ?s1 = "initial_state\<lparr>s_echoed := [EchoMessage ''Running <p>cli deploy aws-s3 -h for commands and options...'' True]\<rparr>"
  have e: "execCliHelp ?env None initial_state = Return ?out ?s1"
    by code_simp
  have c: "parseChildren ?env (s_options ?s1) ?out = []"
    by code_simp
  from root_is_not_recorded [of 0 ?env initial_state] e c
  have "parseChildrenAndOptions (Suc 0) ?env None initial_state = Some (Return () ?s1)"
    by blast
  then show "case parseChildrenAndOptions 1 ?env None initial_state of
      Some (Return u s) \<Rightarrow> s_dtos s = []
    | _ \<Rightarrow> False"
    by (simp add: initial_state_def)
next
  let ?out = "''Options:\<newline>  --force  Force\<newline>  -h, --help  display help\<newline>''"
  let ?s1 = "initial_state\<lparr>s_echoed := [EchoMessage ''Running <p>cli deploy aws-s3 -h for commands and options...'' True]\<rparr>"
  have e: "execCliHelp stub_env (Some ''deploy aws-s3'') initial_state = Return ?out ?s1"
    by code_simp
  have c: "parseChildren stub_env (s_options ?s1) ?out = []"
    by code_simp
  have ne: "''deploy aws-s3'' \<noteq> []" by simp
  have d: "addOrUpdateDto (buildDto ''deploy aws-s3'' (parseOptions stub_env (s_options ?s1) ?out))
                                   (s_dtos initial_state)
           = [\<lparr>command = ''aws-s3'', options = [''--force''], parent = Some ''deploy''\<rparr>]"
    by code_simp
  from root_is_not_recorded [of 0 stub_env initial_state] ne e c
  have "parseChildrenAndOptions (Suc 0) stub_env (Some ''deploy aws-s3'') initial_state =
                Some (Return ()
                  (?s1\<lparr>s_dtos := addOrUpdateDto (buildDto ''deploy aws-s3'' (parseOptions stub_env (s_options ?s1) ?out))
                                   (s_dtos initial_state)\<rparr>))"
    by blast
  then show "case parseChildrenAndOptions 1 stub_env (Some ''deploy aws-s3'') initial_state of
      Some (Return u s) \<Rightarrow>
        s_dtos s = [\<lparr>command = ''aws-s3'', options = [''--force''], parent = Some ''deploy''\<rparr>]
    | _ \<Rightarrow> False"
    unfolding d by simp
qed

section \<open>Properties of the tree printer\<close>

lemma echoFormatted_frame [simp]:
  "s_dtos (echoFormatted v ind s) = s_dtos s"
  "s_options (echoFormatted v ind s) = s_options s"
  "s_echoed (echoFormatted v ind s) = s_echoed s @ [formatted (s_options s) v ind]"
  by (simp_all add: echoFormatted_def echo_def)

lemma printOption_frame [simp]:
  "s_dtos (printOption env option ind s) = s_dtos s"
  "s_options (printOption env option ind s) = s_options s"
  by (simp_all add: printOption_def Let_def)

lemma fold_printOption_frame:
  "s_dtos (fold (\<lambda>option. printOption env option ind) opts s) = s_dtos s
   \<and> s_options (fold (\<lambda>option. printOption env option ind) opts s) = s_options s
   \<and> (\<exists>out. s_echoed (fold (\<lambda>option. printOption env option ind) opts s) = s_echoed s @ out)"
proof (induction opts arbitrary: s)
  case Nil
  show ?case by simp
next
  case (Cons option opts)
  from Cons.IH [of "printOption env option ind s"] show ?case
    by (auto simp: printOption_def Let_def)
qed

lemma printOptions_frame:
  "s_dtos (printOptions env dto ind s) = s_dtos s"
  "s_options (printOptions env dto ind s) = s_options s"
  "\<exists>out. s_echoed (printOptions env dto ind s) = s_echoed s @ out"
  using fold_printOption_frame [of env ind "options dto" s]
  by (simp_all add: printOptions_def)

lemma print_frame:
  "print n env dtos ind s = Some s' \<Longrightarrow>
     s_dtos s' = s_dtos s \<and> s_options s' = s_options s \<and> (\<exists>out. s_echoed s' = s_echoed s @ out)"
  "printEach n env dtos ind s = Some s' \<Longrightarrow>
     s_dtos s' = s_dtos s \<and> s_options s' = s_options s \<and> (\<exists>out. s_echoed s' = s_echoed s @ out)"
  "printCommand n env dto ind s = Some s' \<Longrightarrow>
     s_dtos s' = s_dtos s \<and> s_options s' = s_options s \<and> (\<exists>out. s_echoed s' = s_echoed s @ out)"
proof (induction n env dtos ind s and n env dtos ind s and n env dto ind s
       arbitrary: s' and s' and s' rule: print_printEach_printCommand.induct)
  case (1 env dtos ind s)
  then show ?case by simp
next
  case (2 n env dtos ind s)
  from "2.prems" have "printEach n env (getParentCommandsOrDefault dtos) ind s = Some s'"
    by (simp add: Let_def)
  then show ?case by (rule "2.IH" [OF refl])
next
  case (3 n env ind s)
  then show ?case by simp
next
  case (4 n env c commands ind s)
  from "4.prems" obtain s1 where c: "printCommand n env c ind s = Some s1"
    and r: "printEach n env commands ind s1 = Some s'"
    by (auto split: option.splits)
  from "4.IH"(1) [OF c] obtain out1 where
    a: "s_dtos s1 = s_dtos s" "s_options s1 = s_options s" "s_echoed s1 = s_echoed s @ out1"
    by blast
  from "4.IH"(2) [OF c r] obtain out2 where
    b: "s_dtos s' = s_dtos s1" "s_options s' = s_options s1" "s_echoed s' = s_echoed s1 @ out2"
    by blast
  from a b have "s_echoed s' = s_echoed s @ (out1 @ out2)" by simp
  with a b show ?case by metis
next
  case (5 n env dto ind s)
  define m where "m = (if useColor (s_options s) then green env (command dto) else command dto)"
  define s1 where "s1 = echoFormatted m ind s"
  define s2 where "s2 = printOptions env dto (ind + indent (s_options s1)) s1"
  from "5.prems" have p: "print n env (getChildren s2 dto) (ind + indent (s_options s2) * 2) s2 = Some s'"
    by (simp add: Let_def m_def s1_def s2_def)
  from "5.IH" [OF m_def s1_def s2_def refl p] obtain out3 where
    c: "s_dtos s' = s_dtos s2" "s_options s' = s_options s2" "s_echoed s' = s_echoed s2 @ out3"
    by blast
  from printOptions_frame [of env dto "ind + indent (s_options s1)" s1] obtain out2 where
    b: "s_dtos s2 = s_dtos s1" "s_options s2 = s_options s1" "s_echoed s2 = s_echoed s1 @ out2"
    unfolding s2_def by blast
  have a: "s_dtos s1 = s_dtos s" "s_options s1 = s_options s"
      "s_echoed s1 = s_echoed s @ [formatted (s_options s) m ind]"
    unfolding s1_def by simp_all
  from a b c have "s_echoed s' = s_echoed s @ ([formatted (s_options s) m ind] @ out2 @ out3)"
    by simp
  with a b c show ?case by metis
qed

lemma printCommand_head:
  assumes "printCommand n env dto ind s = Some s'"
  shows "\<exists>rest. s_echoed s' = s_echoed s @
           formatted (s_options s)
             (if useColor (s_options s) then green env (command dto) else command dto) ind # rest"
proof -
  define m where "m = (if useColor (s_options s) then green env (command dto) else command dto)"
  define s1 where "s1 = echoFormatted m ind s"
  define s2 where "s2 = printOptions env dto (ind + indent (s_options s1)) s1"
  from assms have p: "print n env (getChildren s2 dto) (ind + indent (s_options s2) * 2) s2 = Some s'"
    by (simp add: Let_def m_def s1_def s2_def)
  from print_frame(1) [OF p] obtain out3 where c: "s_echoed s' = s_echoed s2 @ out3"
    by blast
  from printOptions_frame(3) [of env dto "ind + indent (s_options s1)" s1] obtain out2 where
    b: "s_echoed s2 = s_echoed s1 @ out2"
    unfolding s2_def by blast
  have a: "s_echoed s1 = s_echoed s @ [formatted (s_options s) m ind]"
    unfolding s1_def by simp
  from a b c have "s_echoed s' = s_echoed s @ formatted (s_options s) m ind # (out2 @ out3)"
    by simp
  then show ?thesis unfolding m_def by blast
qed

lemma printEach_blocks:
  assumes "printEach n env roots ind s = Some s'"
  shows "\<exists>blocks. s_echoed s' = s_echoed s @ concat blocks
           \<and> list_all2 (\<lambda>d block. block \<noteq> [] \<and>
                 hd block = formatted (s_options s)
                   (if useColor (s_options s) then green env (command d) else command d) ind)
               roots blocks"
  using assms
proof (induction roots arbitrary: s)
  case Nil
  then have "s' = s" by simp
  then have "s_echoed s' = s_echoed s @ concat []" by simp
  then show ?case by (intro exI [of _ "[]"]) simp
next
  case (Cons d roots)
  from Cons.prems obtain s1 where c: "printCommand n env d ind s = Some s1"
    and r: "printEach n env roots ind s1 = Some s'"
    by (auto split: option.splits)
  from printCommand_head [OF c] obtain rest where
    h: "s_echoed s1 = s_echoed s @
           formatted (s_options s)
             (if useColor (s_options s) then green env (command d) else command d) ind # rest"
    by blast
  from print_frame(3) [OF c] have o: "s_options s1 = s_options s" by blast
  from Cons.IH [OF r] obtain blocks where
    b: "s_echoed s' = s_echoed s1 @ concat blocks"
    and l: "list_all2 (\<lambda>d block. block \<noteq> [] \<and>
                 hd block = formatted (s_options s)
                   (if useColor (s_options s) then green env (command d) else command d) ind)
               roots blocks"
    unfolding o by blast
  let ?block = "formatted (s_options s)
             (if useColor (s_options s) then green env (command d) else command d) ind # rest"
  from h b have "s_echoed s' = s_echoed s @ concat (?block # blocks)" by simp
  moreover from l have "list_all2 (\<lambda>d block. block \<noteq> [] \<and>
                 hd block = formatted (s_options s)
                   (if useColor (s_options s) then green env (command d) else command d) ind)
               (d # roots) (?block # blocks)"
    by simp
  ultimately show ?case by blast
qed

lemma getParentCommandsOrDefault_subset:
  "set (getParentCommandsOrDefault dtos) \<subseteq> set dtos"
  by (auto simp: getParentCommandsOrDefault_def Let_def hasValues_def)

lemma getParentCommandsOrDefault_fallback:
  assumes "\<forall>d \<in> set dtos. parent d \<noteq> None"
  shows "getParentCommandsOrDefault dtos = dtos"
proof -
  from assms have "filter (\<lambda>c. parent c = None) dtos = []"
    by (simp add: filter_empty_conv)
  then show ?thesis
    by (simp add: getParentCommandsOrDefault_def Let_def hasValues_def)
qed

lemma getParentCommandsOrDefault_parents:
  assumes "\<exists>d \<in> set dtos. parent d = None"
  shows "getParentCommandsOrDefault dtos = filter (\<lambda>d. parent d = None) dtos"
proof -
  from assms have "filter (\<lambda>c. parent c = None) dtos \<noteq> []"
    by (simp add: filter_empty_conv)
  then show ?thesis
    by (simp add: getParentCommandsOrDefault_def Let_def hasValues_def)
qed

lemma getParentCommandsOrDefault_nonempty:
  "dtos \<noteq> [] \<Longrightarrow> getParentCommandsOrDefault dtos \<noteq> []"
  by (auto simp: getParentCommandsOrDefault_def Let_def hasValues_def)

lemma printCommand_children:
  "\<exists>s2. s_dtos s2 = s_dtos s \<and>
     printCommand n env dto ind s =
       print n env (filter (\<lambda>child. parent child = Some (command dto)) (s_dtos s))
         (ind + indent (s_options s) * 2) s2"
proof -
  define m where "m = (if useColor (s_options s) then green env (command dto) else command dto)"
  define s1 where "s1 = echoFormatted m ind s"
  define s2 where "s2 = printOptions env dto (ind + indent (s_options s1)) s1"
  have a: "s_dtos s1 = s_dtos s" "s_options s1 = s_options s"
    unfolding s1_def by simp_all
  have b: "s_dtos s2 = s_dtos s1" "s_options s2 = s_options s1"
    unfolding s2_def by (simp_all add: printOptions_frame)
  have "printCommand n env dto ind s =
          print n env (getChildren s2 dto) (ind + indent (s_options s2) * 2) s2"
    by (simp add: Let_def m_def s1_def s2_def)
  with a b show ?thesis
    by (intro exI [of _ s2]) (simp add: getChildren_def)
qed

lemma rank_bound: "\<exists>k. \<forall>d \<in> set dtos. (f d :: nat) < k"
proof (induction dtos)
  case Nil
  show ?case by simp
next
  case (Cons d dtos)
  then obtain k where k: "\<forall>d \<in> set dtos. f d < k" by blast
  have "\<forall>e \<in> set (d # dtos). f e < max k (Suc (f d))"
    using k by (auto simp: less_max_iff_disj)
  then show ?case by blast
qed

lemma print_returns_ranked:
  assumes rank: "\<forall>c \<in> set store. \<forall>q. parent c = Some q \<longrightarrow> rank (command c) < rank q"
  shows "s_dtos s = store \<Longrightarrow> \<forall>d \<in> set dtos. rank (command d) < k \<Longrightarrow>
           print (Suc k) env dtos ind s \<noteq> None"
proof (induction k arbitrary: dtos ind s)
  case 0
  from "0.prems"(2) have "dtos = []" by (cases dtos) auto
  then show ?case
    by (simp add: getParentCommandsOrDefault_def Let_def hasValues_def)
next
  case (Suc k)
  have each: "s_dtos t = store \<Longrightarrow> \<forall>d \<in> set roots. rank (command d) < Suc k \<Longrightarrow>
                printEach (Suc k) env roots ind t \<noteq> None" for roots t
  proof (induction roots arbitrary: t)
    case Nil
    show ?case by simp
  next
    case (Cons d roots)
    from printCommand_children [of t "Suc k" env d ind] obtain t2 where
      t2: "s_dtos t2 = s_dtos t"
      and pc: "printCommand (Suc k) env d ind t =
                 print (Suc k) env (filter (\<lambda>child. parent child = Some (command d)) (s_dtos t))
                   (ind + indent (s_options t) * 2) t2"
      by blast
    have "\<forall>child \<in> set (filter (\<lambda>child. parent child = Some (command d)) (s_dtos t)).
            rank (command child) < k"
    proof
      fix child
      assume "child \<in> set (filter (\<lambda>child. parent child = Some (command d)) (s_dtos t))"
      then have "child \<in> set store" and "parent child = Some (command d)"
        using Cons.prems(1) by simp_all
      with rank have "rank (command child) < rank (command d)" by blast
      moreover from Cons.prems(2) have "rank (command d) < Suc k" by simp
      ultimately show "rank (command child) < k" by simp
    qed
    with Suc.IH [of t2] t2 Cons.prems(1) pc
    have "printCommand (Suc k) env d ind t \<noteq> None" by simp
    then obtain t1 where t1: "printCommand (Suc k) env d ind t = Some t1" by blast
    from print_frame(3) [OF t1] Cons.prems(1) have "s_dtos t1 = store" by simp
    moreover from Cons.prems(2) have "\<forall>d \<in> set roots. rank (command d) < Suc k" by simp
    ultimately have "printEach (Suc k) env roots ind t1 \<noteq> None" by (rule Cons.IH)
    with t1 show ?case by simp
  qed
  have "\<forall>d \<in> set (getParentCommandsOrDefault dtos). rank (command d) < Suc k"
    using Suc.prems(2) getParentCommandsOrDefault_subset [of dtos] by blast
  with Suc.prems(1) have "printEach (Suc k) env (getParentCommandsOrDefault dtos) ind s \<noteq> None"
    by (rule each)
  then show ?case by (simp add: Let_def)
qed

lemma acyclic_print_returns:
  assumes "acyclic_parents (s_dtos s)"
  shows "print_returns env dtos ind s"
proof -
  from assms obtain rank :: "string \<Rightarrow> nat" where
    rank: "\<forall>c \<in> set (s_dtos s). \<forall>q. parent c = Some q \<longrightarrow> rank (command c) < rank q"
    unfolding acyclic_parents_def by blast
  from rank_bound [of dtos "\<lambda>d. rank (command d)"] obtain k where
    k: "\<forall>d \<in> set dtos. rank (command d) < k" by blast
  from print_returns_ranked [OF rank refl k] show ?thesis
    unfolding print_returns_def by blast
qed

lemma cyclic_pair_diverges:
  "s_dtos s = cyclic_store \<Longrightarrow>
     print n env [\<lparr>command = ''a'', options = [], parent = Some ''b''\<rparr>] ind s = None
     \<and> print n env [\<lparr>command = ''b'', options = [], parent = Some ''a''\<rparr>] ind s = None"
proof (induction n arbitrary: s ind)
  case 0
  show ?case by simp
next
  case (Suc n)
  let ?a = "\<lparr>command = ''a'', options = [], parent = Some ''b''\<rparr>"
  let ?b = "\<lparr>command = ''b'', options = [], parent = Some ''a''\<rparr>"
  have ra: "getParentCommandsOrDefault [?a] = [?a]" and rb: "getParentCommandsOrDefault [?b] = [?b]"
    by (simp_all add: getParentCommandsOrDefault_fallback)
  have ca: "filter (\<lambda>child. parent child = Some (command ?a)) cyclic_store = [?b]"
    and cb: "filter (\<lambda>child. parent child = Some (command ?b)) cyclic_store = [?a]"
    by (simp_all add: cyclic_store_def)
  from printCommand_children [of s n env ?a ind] obtain s2 where
    "s_dtos s2 = cyclic_store" and
    "printCommand n env ?a ind s = print n env [?b] (ind + indent (s_options s) * 2) s2"
    unfolding Suc.prems ca by blast
  with Suc.IH [of s2] have a: "printCommand n env ?a ind s = None" by simp
  from printCommand_children [of s n env ?b ind] obtain s3 where
    "s_dtos s3 = cyclic_store" and
    "printCommand n env ?b ind s = print n env [?a] (ind + indent (s_options s) * 2) s3"
    unfolding Suc.prems cb by blast
  with Suc.IH [of s3] have b: "printCommand n env ?b ind s = None" by simp
  from a b show ?case
    by (simp add: ra rb Let_def del: printCommand.simps)
qed

lemma cyclic_store_diverges:
  assumes "s_dtos s = cyclic_store"
  shows "print n env cyclic_store ind s = None"
proof (cases n)
  case 0
  then show ?thesis by simp
next
  case (Suc m)
  let ?a = "\<lparr>command = ''a'', options = [], parent = Some ''b''\<rparr>"
  let ?b = "\<lparr>command = ''b'', options = [], parent = Some ''a''\<rparr>"
  have r: "getParentCommandsOrDefault cyclic_store = cyclic_store"
    by (rule getParentCommandsOrDefault_fallback) (simp add: cyclic_store_def)
  have ca: "filter (\<lambda>child. parent child = Some (command ?a)) cyclic_store = [?b]"
    by (simp add: cyclic_store_def)
  from printCommand_children [of s m env ?a ind] obtain s2 where
    "s_dtos s2 = cyclic_store" and
    "printCommand m env ?a ind s = print m env [?b] (ind + indent (s_options s) * 2) s2"
    unfolding assms ca by blast
  with cyclic_pair_diverges [of s2 m env] have a: "printCommand m env ?a ind s = None" by simp
  have "printEach m env cyclic_store ind s = None"
    unfolding cyclic_store_def using a by (simp del: printCommand.simps)
  with Suc r show ?thesis by (simp add: Let_def)
qed

text \<open>
  C6, as amended. The roots \<^verbatim>\<open>print\<close> iterates over are all descriptors it was given
  when none of them has a null parent, and exactly the descriptors with a null parent,
  in their original order, when there is one. When the parent links of the store are
  acyclic, \<^verbatim>\<open>print\<close> returns. Whenever it returns, what it echoed is one block of lines
  for each root, in the order of the roots, and each block begins with the line of its
  root's command at the indent \<^verbatim>\<open>print\<close> was called with; so every root is emitted,
  and something is emitted when the list is not empty.
\<close>

theorem print_emits_roots:
  "((\<forall>d \<in> set dtos. parent d \<noteq> None) \<longrightarrow> getParentCommandsOrDefault dtos = dtos)
   \<and> ((\<exists>d \<in> set dtos. parent d = None) \<longrightarrow>
         getParentCommandsOrDefault dtos = filter (\<lambda>d. parent d = None) dtos)
   \<and> (acyclic_parents (s_dtos s) \<longrightarrow> print_returns env dtos ind s)
   \<and> (\<forall>fuel s'. print fuel env dtos ind s = Some s' \<longrightarrow>
         (\<exists>blocks. s_echoed s' = s_echoed s @ concat blocks
            \<and> list_all2 (\<lambda>d block. block \<noteq> [] \<and>
                  hd block = formatted (s_options s)
                    (if useColor (s_options s) then green env (command d) else command d) ind)
                (getParentCommandsOrDefault dtos) blocks)
         \<and> (dtos \<noteq> [] \<longrightarrow> s_echoed s' \<noteq> s_echoed s))"
proof (intro conjI allI impI)
  assume "\<forall>d \<in> set dtos. parent d \<noteq> None"
  then show "getParentCommandsOrDefault dtos = dtos"
    by (rule getParentCommandsOrDefault_fallback)
next
  assume "\<exists>d \<in> set dtos. parent d = None"
  then show "getParentCommandsOrDefault dtos = filter (\<lambda>d. parent d = None) dtos"
    by (rule getParentCommandsOrDefault_parents)
next
  assume "acyclic_parents (s_dtos s)"
  then show "print_returns env dtos ind s"
    by (rule acyclic_print_returns)
next
  fix fuel s'
  assume p: "print fuel env dtos ind s = Some s'"
  then obtain n where e: "printEach n env (getParentCommandsOrDefault dtos) ind s = Some s'"
    by (cases fuel) (simp_all add: Let_def)
  from printEach_blocks [OF e] obtain blocks where
    b: "s_echoed s' = s_echoed s @ concat blocks"
    and l: "list_all2 (\<lambda>d block. block \<noteq> [] \<and>
                  hd block = formatted (s_options s)
                    (if useColor (s_options s) then green env (command d) else command d) ind)
                (getParentCommandsOrDefault dtos) blocks"
    by blast
  from b l show "\<exists>blocks. s_echoed s' = s_echoed s @ concat blocks
            \<and> list_all2 (\<lambda>d block. block \<noteq> [] \<and>
                  hd block = formatted (s_options s)
                    (if useColor (s_options s) then green env (command d) else command d) ind)
                (getParentCommandsOrDefault dtos) blocks"
    by blast
  assume "dtos \<noteq> []"
  then have "getParentCommandsOrDefault dtos \<noteq> []"
    by (rule getParentCommandsOrDefault_nonempty)
  with l obtain block rest where "blocks = block # rest" and "block \<noteq> []"
    by (cases "getParentCommandsOrDefault dtos"; cases blocks) auto
  with b show "s_echoed s' \<noteq> s_echoed s" by simp
qed

theorem print_emits_roots_witness:
  "getParentCommandsOrDefault
     [\<lparr>command = ''aws-s3'', options = [''--force''], parent = Some ''deploy''\<rparr>,
      \<lparr>command = ''azure-web-app'', options = [''--slot''], parent = Some ''deploy''\<rparr>]
   = [\<lparr>command = ''aws-s3'', options = [''--force''], parent = Some ''deploy''\<rparr>,
      \<lparr>command = ''azure-web-app'', options = [''--slot''], parent = Some ''deploy''\<rparr>]
   \<and> getParentCommandsOrDefault
     [\<lparr>command = ''aws-s3'', options = [''--force''], parent = Some ''deploy''\<rparr>,
      \<lparr>command = ''azure-web-app'', options = [''--slot''], parent = Some ''deploy''\<rparr>,
      \<lparr>command = ''deploy'', options = [], parent = None\<rparr>]
   = [\<lparr>command = ''deploy'', options = [], parent = None\<rparr>]
   \<and> print_returns stub_env
       [\<lparr>command = ''aws-s3'', options = [''--force''], parent = Some ''deploy''\<rparr>,
        \<lparr>command = ''azure-web-app'', options = [''--slot''], parent = Some ''deploy''\<rparr>] 0
       \<lparr>s_dtos = [\<lparr>command = ''aws-s3'', options = [''--force''], parent = Some ''deploy''\<rparr>,
                  \<lparr>command = ''azure-web-app'', options = [''--slot''], parent = Some ''deploy''\<rparr>,
                  \<lparr>command = ''deploy'', options = [], parent = None\<rparr>],
        s_options = DEFAULT_OPTIONS, s_echoed = []\<rparr>
   \<and> (\<exists>blocks.
         [EchoMessage ''- [ ] <g>aws-s3'' False, EchoMessage ''    - [ ] <y>--force'' False,
          EchoMessage ''- [ ] <g>azure-web-app'' False, EchoMessage ''    - [ ] <y>--slot'' False]
           = concat blocks
         \<and> map hd blocks = [EchoMessage ''- [ ] <g>aws-s3'' False,
                             EchoMessage ''- [ ] <g>azure-web-app'' False])"
proof -
  let ?aws = "\<lparr>command = ''aws-s3'', options = [''--force''], parent = Some ''deploy''\<rparr>"
  let ?azure = "\<lparr>command = ''azure-web-app'', options = [''--slot''], parent = Some ''deploy''\<rparr>"
  let ?deploy = "\<lparr>command = ''deploy'', options = [], parent = None\<rparr>"
  let ?s = "\<lparr>s_dtos = [?aws, ?azure, ?deploy], s_options = DEFAULT_OPTIONS, s_echoed = []\<rparr>"
  let ?out = "[EchoMessage ''- [ ] <g>aws-s3'' False, EchoMessage ''    - [ ] <y>--force'' False,
          EchoMessage ''- [ ] <g>azure-web-app'' False, EchoMessage ''    - [ ] <y>--slot'' False]"
  have kids: "\<forall>d \<in> set [?aws, ?azure]. parent d \<noteq> None" by simp
  have root: "\<exists>d \<in> set [?aws, ?azure, ?deploy]. parent d = None" by simp
  have acyclic: "acyclic_parents (s_dtos ?s)"
    unfolding acyclic_parents_def
    by (intro exI [of _ "\<lambda>c. if c = ''deploy'' then 1 else 0"]) simp
  have run: "print 2 stub_env [?aws, ?azure] 0 ?s = Some (?s\<lparr>s_echoed := ?out\<rparr>)"
    by code_simp
  have lines: "formatted (s_options ?s)
                 (if useColor (s_options ?s) then green stub_env (command ?aws) else command ?aws) 0
                 = EchoMessage ''- [ ] <g>aws-s3'' False"
      "formatted (s_options ?s)
                 (if useColor (s_options ?s) then green stub_env (command ?azure) else command ?azure) 0
                 = EchoMessage ''- [ ] <g>azure-web-app'' False"
    by (simp_all add: formatted_def DEFAULT_OPTIONS_def stub_env_def)
  note t = print_emits_roots [of "[?aws, ?azure]" ?s stub_env 0]
  from t kids have r1: "getParentCommandsOrDefault [?aws, ?azure] = [?aws, ?azure]" by blast
  from print_emits_roots [of "[?aws, ?azure, ?deploy]" ?s stub_env 0] root
  have "getParentCommandsOrDefault [?aws, ?azure, ?deploy]
          = filter (\<lambda>d. parent d = None) [?aws, ?azure, ?deploy]" by blast
  then have r2: "getParentCommandsOrDefault [?aws, ?azure, ?deploy] = [?deploy]" by simp
  from t acyclic have r3: "print_returns stub_env [?aws, ?azure] 0 ?s" by blast
  from t run obtain blocks where
    b: "s_echoed (?s\<lparr>s_echoed := ?out\<rparr>) = s_echoed ?s @ concat blocks"
    and l: "list_all2 (\<lambda>d block. block \<noteq> [] \<and>
                  hd block = formatted (s_options ?s)
                    (if useColor (s_options ?s) then green stub_env (command d) else command d) 0)
                (getParentCommandsOrDefault [?aws, ?azure]) blocks"
    by blast
  from l obtain b1 b2 where bs: "blocks = [b1, b2]"
    and h: "hd b1 = EchoMessage ''- [ ] <g>aws-s3'' False"
           "hd b2 = EchoMessage ''- [ ] <g>azure-web-app'' False"
    unfolding r1 lines [symmetric] by (auto simp: list_all2_Cons1)
  from b bs h have r4: "?out = concat blocks \<and> map hd blocks =
      [EchoMessage ''- [ ] <g>aws-s3'' False, EchoMessage ''- [ ] <g>azure-web-app'' False]"
    by simp
  have r5: "\<exists>blocks. ?out = concat blocks \<and> map hd blocks =
      [EchoMessage ''- [ ] <g>aws-s3'' False, EchoMessage ''- [ ] <g>azure-web-app'' False]"
  proof (rule exI [where x = blocks])
    show "?out = concat blocks \<and> map hd blocks =
      [EchoMessage ''- [ ] <g>aws-s3'' False, EchoMessage ''- [ ] <g>azure-web-app'' False]"
      by (rule r4)
  qed
  show ?thesis
    by (intro conjI) (rule r1, rule r2, rule r3, rule r5)
qed

text \<open>
  Without the condition on the parent links the printer need not return: on the cyclic
  store, in which no descriptor has a null parent, \<^verbatim>\<open>print\<close> prints \<open>a\<close>, then its child
  \<open>b\<close>, then \<open>a\<close> as the child of \<open>b\<close>, and so on; no amount of fuel suffices, and the
  loop over the roots never reaches \<open>c\<close>.
\<close>

theorem print_cyclic_store_counterexample:
  "cyclic_store \<noteq> []
   \<and> list_all (\<lambda>d. parent d \<noteq> None) cyclic_store
   \<and> \<not> print_returns stub_env cyclic_store 0
          \<lparr>s_dtos = cyclic_store, s_options = DEFAULT_OPTIONS, s_echoed = []\<rparr>"
proof (intro conjI)
  show "cyclic_store \<noteq> []" by (simp add: cyclic_store_def)
  show "list_all (\<lambda>d. parent d \<noteq> None) cyclic_store" by (simp add: cyclic_store_def)
  have "print n stub_env cyclic_store 0
          \<lparr>s_dtos = cyclic_store, s_options = DEFAULT_OPTIONS, s_echoed = []\<rparr> = None" for n
    by (rule cyclic_store_diverges) simp
  then show "\<not> print_returns stub_env cyclic_store 0
          \<lparr>s_dtos = cyclic_store, s_options = DEFAULT_OPTIONS, s_echoed = []\<rparr>"
    by (simp add: print_returns_def)
qed

end
